theory Spec2Isabelle
  imports Complex_Main
begin

section \<open>Detections consensus: data model\<close>

text \<open>
  The embedding follows the dictionary based implementation
  \<^verbatim>\<open>inference/enterprise/workflows/core_steps/fusion/detections_consensus.py\<close>.
  A detection is a Python dict with fixed keys; it becomes a record. Python floats are
  modelled as exact reals (their overflow to infinities and NaN is modelled apart, for the
  intersection over union), Python ints as \<^typ>\<open>int\<close>, strings as \<^typ>\<open>string\<close>.
  A Python dict whose iteration order matters is an association list in insertion order.
  Every exception the code can raise is a value of \<open>error\<close>, returned on the left of a sum.
\<close>

datatype AggregationMode = Mode_AVERAGE | Mode_MAX | Mode_MIN

datatype error =
    ExecutionGraphError
  | ValueError
  | StatisticsError
  | IndexError
  | KeyError
  | ZeroDivisionError

record detection =
  det_x :: real
  det_y :: real
  width :: real
  height :: real
  confidence :: real
  class_name :: string
  class_id :: int
  parent_id :: string
  detection_id :: string

type_synonym xyxy_fun = "detection \<Rightarrow> real \<times> real \<times> real \<times> real"

text \<open>
  Modelled from the spec: \<^verbatim>\<open>detection_to_xyxy\<close> lives in
  \<^verbatim>\<open>core_steps/common/utils.py\<close>, which is not among the sources. The spec says
  that a box is stored as \<open>(x_min, y_min, x_max, y_max)\<close> or equivalently as
  \<open>(center_x, center_y, width, height)\<close>. Every function below takes the conversion
  as its first argument; this instance is only used to evaluate concrete inputs.
\<close>

definition center_to_xyxy :: xyxy_fun where
  "center_to_xyxy d =
     (det_x d - width d / 2, det_y d - height d / 2,
      det_x d + width d / 2, det_y d + height d / 2)"

subsection \<open>Python primitives\<close>

definition py_truediv :: "real \<Rightarrow> real \<Rightarrow> error + real" where
  "py_truediv a b = (if b = 0 then Inl ZeroDivisionError else Inr (a / b))"

fun py_max :: "real list \<Rightarrow> error + real" where
  "py_max [] = Inl ValueError"
| "py_max (v # vs) = Inr (fold max vs v)"

fun py_min :: "real list \<Rightarrow> error + real" where
  "py_min [] = Inl ValueError"
| "py_min (v # vs) = Inr (fold min vs v)"

definition statistics_mean :: "real list \<Rightarrow> error + real" where
  "statistics_mean vs =
     (if vs = [] then Inl StatisticsError else Inr (sum_list vs / real (length vs)))"

text \<open>Python's \<^verbatim>\<open>round\<close> with one argument: nearest integer, halves to the even one.\<close>

definition py_round :: "real \<Rightarrow> int" where
  "py_round v =
     (let f = \<lfloor>v\<rfloor>; r = v - of_int f
      in if r < 1 / 2 then f
         else if 1 / 2 < r then f + 1
         else if even f then f else f + 1)"

text \<open>\<^verbatim>\<open>xs[0]\<close>: IndexError on the empty list.\<close>

fun py_first :: "'a list \<Rightarrow> error + 'a" where
  "py_first [] = Inl IndexError"
| "py_first (v # vs) = Inr v"

text \<open>\<^verbatim>\<open>d[k] = v\<close> on a dict kept in insertion order: an existing key keeps its place.\<close>

fun dict_set :: "('k \<times> 'v) list \<Rightarrow> 'k \<Rightarrow> 'v \<Rightarrow> ('k \<times> 'v) list" where
  "dict_set [] k v = [(k, v)]"
| "dict_set ((k', v') # d) k v =
     (if k' = k then (k, v) # d else (k', v') # dict_set d k v)"

section \<open>Batch sizes, parent identifiers, class filter\<close>

definition get_predictions_batch_sizes :: "'a list list \<Rightarrow> nat list" where
  "get_predictions_batch_sizes all_predictions = map length all_predictions"

definition all_batch_sizes_equal :: "nat list \<Rightarrow> bool" where
  "all_batch_sizes_equal batch_sizes =
     (case batch_sizes of [] \<Rightarrow> True | reference # _ \<Rightarrow> list_all (\<lambda>e. e = reference) batch_sizes)"

definition get_and_validate_batch_sizes :: "'a list list \<Rightarrow> error + nat list" where
  "get_and_validate_batch_sizes all_predictions =
     (let batch_sizes = get_predictions_batch_sizes all_predictions
      in if \<not> all_batch_sizes_equal batch_sizes then Inl ExecutionGraphError
         else Inr batch_sizes)"

definition does_not_detected_objects_in_any_source :: "detection list list \<Rightarrow> bool" where
  "does_not_detected_objects_in_any_source predictions =
     list_all (\<lambda>p. length p = 0) predictions"

text \<open>
  The set comprehension of parent identifiers is the duplicate-free list of the
  identifiers met; only its size and, when it has one member, that member are read.
\<close>

definition get_parent_id_of_predictions_from_different_sources ::
  "detection list list \<Rightarrow> error + string" where
  "get_parent_id_of_predictions_from_different_sources predictions =
     (let encountered_parent_ids = remdups (map parent_id (concat predictions))
      in if 1 < length encountered_parent_ids then Inl ExecutionGraphError
         else py_first encountered_parent_ids)"

definition filter_predictions ::
  "detection list list \<Rightarrow> string list option \<Rightarrow> detection list list" where
  "filter_predictions predictions classes_to_consider =
     (case classes_to_consider of
        None \<Rightarrow> predictions
      | Some classes \<Rightarrow>
          map (\<lambda>detections. filter (\<lambda>detection. class_name detection \<in> set classes) detections)
            predictions)"

section \<open>Matching\<close>

definition enumerate_detections ::
  "detection list list \<Rightarrow> nat option \<Rightarrow> (nat \<times> detection) list" where
  "enumerate_detections predictions excluded_source =
     concat (map (\<lambda>(source_id, detections).
                    if excluded_source = Some source_id then []
                    else map (Pair source_id) detections)
                 (enumerate 0 predictions))"

definition get_detection_sizes :: "detection list \<Rightarrow> real list" where
  "get_detection_sizes detections = map (\<lambda>d. height d * width d) detections"

definition calculate_iou :: "xyxy_fun \<Rightarrow> detection \<Rightarrow> detection \<Rightarrow> error + real" where
  "calculate_iou detection_to_xyxy detection_a detection_b =
     (case detection_to_xyxy detection_a of (a0, a1, a2, a3) \<Rightarrow>
      case detection_to_xyxy detection_b of (b0, b1, b2, b3) \<Rightarrow>
        let x_a = max a0 b0;
            y_a = max a1 b1;
            x_b = min a2 b2;
            y_b = min a3 b3;
            intersection = max 0 (x_b - x_a) * max 0 (y_b - y_a);
            sizes = get_detection_sizes [detection_a, detection_b];
            bbox_a_area = sizes ! 0;
            bbox_b_area = sizes ! 1;
            union = bbox_a_area + bbox_b_area - intersection
        in if union = 0 then Inr 0
           else py_truediv intersection (bbox_a_area + bbox_b_area - intersection))"

subsection \<open>Intersection over union in float arithmetic\<close>

text \<open>
  The reals above have no infinity and no NaN. Where those matter, the same function is
  read with the float arithmetic of Python: a result whose magnitude exceeds the largest
  double is an infinity, a difference of equal infinities and a product of an infinity
  with zero are NaN, every comparison with NaN is false, and a division by zero raises.
  The rounding of results inside the range is not modelled. Python's \<^verbatim>\<open>max(a, b)\<close>
  is \<^verbatim>\<open>b if b > a else a\<close>, and \<^verbatim>\<open>min(a, b)\<close> is \<^verbatim>\<open>b if b < a else a\<close>.
\<close>

datatype pyfloat = Num real | PosInf | NegInf | NaN

definition float_max :: real where
  "float_max = (2 ^ 53 - 1) * 2 ^ 971"

definition py_float :: "real \<Rightarrow> pyfloat" where
  "py_float r =
     (if float_max < r then PosInf else if r < - float_max then NegInf else Num r)"

fun fp_neg :: "pyfloat \<Rightarrow> pyfloat" where
  "fp_neg (Num a) = Num (- a)"
| "fp_neg PosInf = NegInf"
| "fp_neg NegInf = PosInf"
| "fp_neg NaN = NaN"

fun fp_add :: "pyfloat \<Rightarrow> pyfloat \<Rightarrow> pyfloat" where
  "fp_add NaN y = NaN"
| "fp_add x NaN = NaN"
| "fp_add (Num a) (Num b) = py_float (a + b)"
| "fp_add (Num a) y = y"
| "fp_add x (Num b) = x"
| "fp_add x y = (if x = y then x else NaN)"

definition fp_sub :: "pyfloat \<Rightarrow> pyfloat \<Rightarrow> pyfloat" where
  "fp_sub x y = fp_add x (fp_neg y)"

fun fp_mul :: "pyfloat \<Rightarrow> pyfloat \<Rightarrow> pyfloat" where
  "fp_mul NaN y = NaN"
| "fp_mul x NaN = NaN"
| "fp_mul (Num a) (Num b) = py_float (a * b)"
| "fp_mul (Num a) y = (if a = 0 then NaN else if 0 < a then y else fp_neg y)"
| "fp_mul x (Num b) = (if b = 0 then NaN else if 0 < b then x else fp_neg x)"
| "fp_mul x y = (if x = y then PosInf else NegInf)"

fun fp_div :: "pyfloat \<Rightarrow> pyfloat \<Rightarrow> pyfloat" where
  "fp_div NaN y = NaN"
| "fp_div x NaN = NaN"
| "fp_div (Num a) (Num b) = py_float (a / b)"
| "fp_div (Num a) y = Num 0"
| "fp_div x (Num b) = (if 0 < b then x else fp_neg x)"
| "fp_div x y = NaN"

definition py_truediv_fp :: "pyfloat \<Rightarrow> pyfloat \<Rightarrow> error + pyfloat" where
  "py_truediv_fp x y = (if y = Num 0 then Inl ZeroDivisionError else Inr (fp_div x y))"

fun fp_less :: "pyfloat \<Rightarrow> pyfloat \<Rightarrow> bool" where
  "fp_less NaN y = False"
| "fp_less x NaN = False"
| "fp_less (Num a) (Num b) = (a < b)"
| "fp_less (Num a) PosInf = True"
| "fp_less (Num a) NegInf = False"
| "fp_less PosInf y = False"
| "fp_less NegInf NegInf = False"
| "fp_less NegInf y = True"

definition fp_max :: "pyfloat \<Rightarrow> pyfloat \<Rightarrow> pyfloat" where
  "fp_max x y = (if fp_less x y then y else x)"

definition fp_min :: "pyfloat \<Rightarrow> pyfloat \<Rightarrow> pyfloat" where
  "fp_min x y = (if fp_less y x then y else x)"

type_synonym xyxy_fp_fun = "detection \<Rightarrow> pyfloat \<times> pyfloat \<times> pyfloat \<times> pyfloat"


definition get_detection_sizes_fp :: "detection list \<Rightarrow> pyfloat list" where
  "get_detection_sizes_fp detections =
     map (\<lambda>d. fp_mul (Num (height d)) (Num (width d))) detections"

definition calculate_iou_fp :: "xyxy_fp_fun \<Rightarrow> detection \<Rightarrow> detection \<Rightarrow> error + pyfloat" where
  "calculate_iou_fp detection_to_xyxy detection_a detection_b =
     (case detection_to_xyxy detection_a of (a0, a1, a2, a3) \<Rightarrow>
      case detection_to_xyxy detection_b of (b0, b1, b2, b3) \<Rightarrow>
        let x_a = fp_max a0 b0;
            y_a = fp_max a1 b1;
            x_b = fp_min a2 b2;
            y_b = fp_min a3 b3;
            intersection = fp_mul (fp_max (Num 0) (fp_sub x_b x_a))
                                  (fp_max (Num 0) (fp_sub y_b y_a));
            sizes = get_detection_sizes_fp [detection_a, detection_b];
            bbox_a_area = sizes ! 0;
            bbox_b_area = sizes ! 1;
            union = fp_sub (fp_add bbox_a_area bbox_b_area) intersection
        in if union = Num 0 then Inr (Num 0)
           else py_truediv_fp intersection
                  (fp_sub (fp_add bbox_a_area bbox_b_area) intersection))"

type_synonym overlaps = "(nat \<times> detection \<times> real) list"

text \<open>
  The body of the loop of \<^verbatim>\<open>get_detections_from_different_sources_with_max_overlap\<close>,
  over the pairs that \<^verbatim>\<open>enumerate_detections\<close> yields. Reading
  \<^verbatim>\<open>current_max_overlap[other_source]\<close> raises \<^verbatim>\<open>KeyError\<close> on a missing key.
\<close>

fun max_overlap_loop ::
  "xyxy_fun \<Rightarrow> detection \<Rightarrow> real \<Rightarrow> bool \<Rightarrow> string set \<Rightarrow>
   (nat \<times> detection) list \<Rightarrow> overlaps \<Rightarrow> error + overlaps" where
  "max_overlap_loop to_xyxy detection iou_threshold class_aware considered [] cur = Inr cur"
| "max_overlap_loop to_xyxy detection iou_threshold class_aware considered
     ((other_source, other_detection) # rest) cur =
     (if detection_id other_detection \<in> considered
      then max_overlap_loop to_xyxy detection iou_threshold class_aware considered rest cur
      else if class_aware \<and> class_name detection \<noteq> class_name other_detection
      then max_overlap_loop to_xyxy detection iou_threshold class_aware considered rest cur
      else
        case calculate_iou to_xyxy detection other_detection of
          Inl e \<Rightarrow> Inl e
        | Inr iou_value \<Rightarrow>
            if iou_value \<le> iou_threshold
            then max_overlap_loop to_xyxy detection iou_threshold class_aware considered rest cur
            else
              let cur1 = (if map_of cur other_source = None
                          then dict_set cur other_source (other_detection, iou_value)
                          else cur)
              in case map_of cur1 other_source of
                   None \<Rightarrow> Inl KeyError
                 | Some kept \<Rightarrow>
                     max_overlap_loop to_xyxy detection iou_threshold class_aware considered rest
                       (if snd kept < iou_value
                        then dict_set cur1 other_source (other_detection, iou_value)
                        else cur1))"

definition get_detections_from_different_sources_with_max_overlap ::
  "xyxy_fun \<Rightarrow> detection \<Rightarrow> nat \<Rightarrow> detection list list \<Rightarrow> real \<Rightarrow> bool \<Rightarrow> string set \<Rightarrow>
   error + overlaps" where
  "get_detections_from_different_sources_with_max_overlap
     to_xyxy detection source predictions iou_threshold class_aware detections_already_considered =
     max_overlap_loop to_xyxy detection iou_threshold class_aware detections_already_considered
       (enumerate_detections predictions (Some source)) []"

section \<open>Merging a group\<close>

fun AGGREGATION_MODE2FIELD_AGGREGATOR :: "AggregationMode \<Rightarrow> real list \<Rightarrow> error + real" where
  "AGGREGATION_MODE2FIELD_AGGREGATOR Mode_MAX = py_max"
| "AGGREGATION_MODE2FIELD_AGGREGATOR Mode_MIN = py_min"
| "AGGREGATION_MODE2FIELD_AGGREGATOR Mode_AVERAGE = statistics_mean"

definition aggregate_field_values ::
  "detection list \<Rightarrow> (detection \<Rightarrow> real) \<Rightarrow> AggregationMode \<Rightarrow> error + real" where
  "aggregate_field_values detections field aggregation_mode =
     AGGREGATION_MODE2FIELD_AGGREGATOR aggregation_mode (map field detections)"

text \<open>
  \<^verbatim>\<open>Counter(...)\<close> counts in insertion order; \<^verbatim>\<open>most_common(1)\<close> is the first
  entry of greatest count, and indexing its empty result raises \<^verbatim>\<open>IndexError\<close>.
\<close>

fun counter_add :: "(string \<times> nat) list \<Rightarrow> string \<Rightarrow> (string \<times> nat) list" where
  "counter_add [] c = [(c, 1)]"
| "counter_add ((c', n) # cs) c =
     (if c' = c then (c', Suc n) # cs else (c', n) # counter_add cs c)"

definition Counter :: "string list \<Rightarrow> (string \<times> nat) list" where
  "Counter cs = foldl counter_add [] cs"

fun first_greatest :: "(string \<times> nat) \<Rightarrow> (string \<times> nat) list \<Rightarrow> (string \<times> nat)" where
  "first_greatest best [] = best"
| "first_greatest best (e # es) = first_greatest (if snd best < snd e then e else best) es"

fun most_common_1 :: "(string \<times> nat) list \<Rightarrow> error + (string \<times> nat)" where
  "most_common_1 [] = Inl IndexError"
| "most_common_1 (e # es) = Inr (first_greatest e es)"

definition get_majority_class :: "detection list \<Rightarrow> error + (string \<times> int)" where
  "get_majority_class detections =
     (case most_common_1 (Counter (map class_name detections)) of
        Inl e \<Rightarrow> Inl e
      | Inr (most_common_class_name, _) \<Rightarrow>
          (case py_first (map class_id
                  (filter (\<lambda>d. class_name d = most_common_class_name) detections)) of
             Inl e \<Rightarrow> Inl e
           | Inr cid \<Rightarrow> Inr (most_common_class_name, cid)))"

definition get_class_of_most_confident_detection :: "detection list \<Rightarrow> error + (string \<times> int)" where
  "get_class_of_most_confident_detection detections =
     (case aggregate_field_values detections confidence Mode_MAX of
        Inl e \<Rightarrow> Inl e
      | Inr max_confidence \<Rightarrow>
          (case py_first (filter (\<lambda>d. confidence d = max_confidence) detections) of
             Inl e \<Rightarrow> Inl e
           | Inr most_confident_prediction \<Rightarrow>
               Inr (class_name most_confident_prediction, class_id most_confident_prediction)))"

definition get_class_of_least_confident_detection :: "detection list \<Rightarrow> error + (string \<times> int)" where
  "get_class_of_least_confident_detection detections =
     (case aggregate_field_values detections confidence Mode_MIN of
        Inl e \<Rightarrow> Inl e
      | Inr max_confidence \<Rightarrow>
          (case py_first (filter (\<lambda>d. confidence d = max_confidence) detections) of
             Inl e \<Rightarrow> Inl e
           | Inr most_confident_prediction \<Rightarrow>
               Inr (class_name most_confident_prediction, class_id most_confident_prediction)))"

fun AGGREGATION_MODE2CLASS_SELECTOR ::
  "AggregationMode \<Rightarrow> detection list \<Rightarrow> error + (string \<times> int)" where
  "AGGREGATION_MODE2CLASS_SELECTOR Mode_MAX = get_class_of_most_confident_detection"
| "AGGREGATION_MODE2CLASS_SELECTOR Mode_MIN = get_class_of_least_confident_detection"
| "AGGREGATION_MODE2CLASS_SELECTOR Mode_AVERAGE = get_majority_class"

type_synonym box = "real \<times> real \<times> real \<times> real"

definition get_average_bounding_box :: "detection list \<Rightarrow> error + box" where
  "get_average_bounding_box detections =
     (case aggregate_field_values detections det_x Mode_AVERAGE of Inl e \<Rightarrow> Inl e | Inr mx \<Rightarrow>
      case aggregate_field_values detections det_y Mode_AVERAGE of Inl e \<Rightarrow> Inl e | Inr my \<Rightarrow>
      case aggregate_field_values detections width Mode_AVERAGE of Inl e \<Rightarrow> Inl e | Inr mw \<Rightarrow>
      case aggregate_field_values detections height Mode_AVERAGE of Inl e \<Rightarrow> Inl e | Inr mh \<Rightarrow>
        Inr (of_int (py_round mx), of_int (py_round my),
             of_int (py_round mw), of_int (py_round mh)))"

text \<open>\<^verbatim>\<open>[idx for idx, v in enumerate(sizes) if v == size][0]\<close>, then \<^verbatim>\<open>detections[idx]\<close>.\<close>

definition detection_of_size :: "detection list \<Rightarrow> real list \<Rightarrow> real \<Rightarrow> error + detection" where
  "detection_of_size detections detection_sizes wanted_size =
     (case py_first (map fst (filter (\<lambda>(idx, v). v = wanted_size) (enumerate 0 detection_sizes))) of
        Inl e \<Rightarrow> Inl e
      | Inr matching_detection_id \<Rightarrow>
          if matching_detection_id < length detections
          then Inr (detections ! matching_detection_id)
          else Inl IndexError)"

definition get_smallest_bounding_box :: "detection list \<Rightarrow> error + box" where
  "get_smallest_bounding_box detections =
     (let detection_sizes = get_detection_sizes detections
      in case py_min detection_sizes of
           Inl e \<Rightarrow> Inl e
         | Inr smallest_size \<Rightarrow>
             (case detection_of_size detections detection_sizes smallest_size of
                Inl e \<Rightarrow> Inl e
              | Inr matching_detection \<Rightarrow>
                  Inr (det_x matching_detection, det_y matching_detection,
                       width matching_detection, height matching_detection)))"

definition get_largest_bounding_box :: "detection list \<Rightarrow> error + box" where
  "get_largest_bounding_box detections =
     (let detection_sizes = get_detection_sizes detections
      in case py_max detection_sizes of
           Inl e \<Rightarrow> Inl e
         | Inr largest_size \<Rightarrow>
             (case detection_of_size detections detection_sizes largest_size of
                Inl e \<Rightarrow> Inl e
              | Inr matching_detection \<Rightarrow>
                  Inr (det_x matching_detection, det_y matching_detection,
                       width matching_detection, height matching_detection)))"

fun AGGREGATION_MODE2BOXES_AGGREGATOR :: "AggregationMode \<Rightarrow> detection list \<Rightarrow> error + box" where
  "AGGREGATION_MODE2BOXES_AGGREGATOR Mode_MAX = get_largest_bounding_box"
| "AGGREGATION_MODE2BOXES_AGGREGATOR Mode_MIN = get_smallest_bounding_box"
| "AGGREGATION_MODE2BOXES_AGGREGATOR Mode_AVERAGE = get_average_bounding_box"

text \<open>
  \<^verbatim>\<open>merge_detections\<close>; the identifier drawn from \<^verbatim>\<open>uuid4()\<close> is the argument
  \<open>uuid\<close>. The values are computed in the order of the source: class, box, then the
  fields of the dict literal.
\<close>

definition merge_detections ::
  "string \<Rightarrow> detection list \<Rightarrow> AggregationMode \<Rightarrow> AggregationMode \<Rightarrow> error + detection" where
  "merge_detections uuid detections confidence_aggregation_mode boxes_aggregation_mode =
     (case AGGREGATION_MODE2CLASS_SELECTOR confidence_aggregation_mode detections of
        Inl e \<Rightarrow> Inl e
      | Inr (cname, cid) \<Rightarrow>
     (case AGGREGATION_MODE2BOXES_AGGREGATOR boxes_aggregation_mode detections of
        Inl e \<Rightarrow> Inl e
      | Inr (bx, by, bw, bh) \<Rightarrow>
     (case py_first detections of
        Inl e \<Rightarrow> Inl e
      | Inr first_detection \<Rightarrow>
     (case aggregate_field_values detections confidence confidence_aggregation_mode of
        Inl e \<Rightarrow> Inl e
      | Inr conf \<Rightarrow>
          Inr \<lparr>det_x = bx, det_y = by, width = bw, height = bh, confidence = conf,
               class_name = cname, class_id = cid,
               parent_id = parent_id first_detection, detection_id = uuid\<rparr>))))"

section \<open>Voting\<close>

definition detections_of_overlaps :: "overlaps \<Rightarrow> detection list" where
  "detections_of_overlaps detections_with_max_overlap =
     map (\<lambda>(other_source, matched_value). fst matched_value) detections_with_max_overlap"

definition get_consensus_for_single_detection ::
  "xyxy_fun \<Rightarrow> string \<Rightarrow> detection \<Rightarrow> nat \<Rightarrow> detection list list \<Rightarrow> real \<Rightarrow> bool \<Rightarrow> int \<Rightarrow>
   real \<Rightarrow> AggregationMode \<Rightarrow> AggregationMode \<Rightarrow> string set \<Rightarrow>
   error + (detection list \<times> string set)" where
  "get_consensus_for_single_detection to_xyxy uuid detection source_id predictions iou_threshold
     class_aware required_votes confidence_threshold detections_merge_confidence_aggregation
     detections_merge_coordinates_aggregation detections_already_considered =
     (if detection_id detection \<in> detections_already_considered
      then Inr ([], detections_already_considered)
      else
        case get_detections_from_different_sources_with_max_overlap to_xyxy detection source_id
               predictions iou_threshold class_aware detections_already_considered of
          Inl e \<Rightarrow> Inl e
        | Inr detections_with_max_overlap \<Rightarrow>
            if int (length detections_with_max_overlap) < required_votes - 1
            then Inr ([], detections_already_considered)
            else
              let detections_to_merge =
                    detection # detections_of_overlaps detections_with_max_overlap
              in case merge_detections uuid detections_to_merge
                        detections_merge_confidence_aggregation
                        detections_merge_coordinates_aggregation of
                   Inl e \<Rightarrow> Inl e
                 | Inr merged_detection \<Rightarrow>
                     if confidence merged_detection < confidence_threshold
                     then Inr ([], detections_already_considered)
                     else Inr ([merged_detection],
                               detections_already_considered
                                 \<union> {detection_id detection}
                                 \<union> detection_id ` set (detections_of_overlaps
                                                          detections_with_max_overlap)))"

section \<open>Presence of objects\<close>

datatype required_objects =
    Required_None
  | Required_Int int
  | Required_Dict "(string \<times> int) list"

text \<open>
  \<^verbatim>\<open>class2detections\<close> is a \<^verbatim>\<open>defaultdict(list)\<close>: reading a missing key inserts
  it with the empty list, at the end of the iteration order.
\<close>

fun class2detections_append ::
  "(string \<times> detection list) list \<Rightarrow> detection \<Rightarrow> (string \<times> detection list) list" where
  "class2detections_append [] d = [(class_name d, [d])]"
| "class2detections_append ((c, ds) # rest) d =
     (if c = class_name d then (c, ds @ [d]) # rest
      else (c, ds) # class2detections_append rest d)"

definition defaultdict_read ::
  "(string \<times> detection list) list \<Rightarrow> string \<Rightarrow>
   detection list \<times> (string \<times> detection list) list" where
  "defaultdict_read class2detections k =
     (case map_of class2detections k of
        Some ds \<Rightarrow> (ds, class2detections)
      | None \<Rightarrow> ([], class2detections @ [(k, [])]))"

text \<open>
  The loop over \<^verbatim>\<open>required_objects.items()\<close>: \<open>None\<close> is the early
  \<^verbatim>\<open>return False, {}\<close>, otherwise the dict as the reads have left it.
\<close>

fun check_required_classes ::
  "(string \<times> int) list \<Rightarrow> (string \<times> detection list) list \<Rightarrow>
   (string \<times> detection list) list option" where
  "check_required_classes [] class2detections = Some class2detections"
| "check_required_classes ((requested_class, required_objects_count) # rest) class2detections =
     (case defaultdict_read class2detections requested_class of
        (class_detections, class2detections') \<Rightarrow>
          if int (length class_detections) < required_objects_count then None
          else check_required_classes rest class2detections')"

fun class2confidence_of ::
  "AggregationMode \<Rightarrow> (string \<times> detection list) list \<Rightarrow> error + (string \<times> real) list" where
  "class2confidence_of aggregation_mode [] = Inr []"
| "class2confidence_of aggregation_mode ((cname, class_detections) # rest) =
     (case aggregate_field_values class_detections confidence aggregation_mode of
        Inl e \<Rightarrow> Inl e
      | Inr v \<Rightarrow>
          (case class2confidence_of aggregation_mode rest of
             Inl e \<Rightarrow> Inl e
           | Inr others \<Rightarrow> Inr ((cname, v) # others)))"

definition check_objects_presence_in_consensus_predictions ::
  "detection list \<Rightarrow> bool \<Rightarrow> AggregationMode \<Rightarrow> required_objects \<Rightarrow>
   error + (bool \<times> (string \<times> real) list)" where
  "check_objects_presence_in_consensus_predictions consensus_detections class_aware
     aggregation_mode required =
     (if length consensus_detections = 0 then Inr (False, [])
      else
        let required1 = (case required of Required_None \<Rightarrow> Required_Int 0 | r \<Rightarrow> r);
            required2 = (case required1 of
                           Required_Dict m \<Rightarrow>
                             if \<not> class_aware then Required_Int (sum_list (map snd m))
                             else Required_Dict m
                         | r \<Rightarrow> r)
        in if (case required2 of
                 Required_Int n \<Rightarrow> int (length consensus_detections) < n
               | _ \<Rightarrow> False)
           then Inr (False, [])
           else if \<not> class_aware
           then (case aggregate_field_values consensus_detections confidence aggregation_mode of
                   Inl e \<Rightarrow> Inl e
                 | Inr aggregated_confidence \<Rightarrow> Inr (True, [(''any_object'', aggregated_confidence)]))
           else
             let class2detections = foldl class2detections_append [] consensus_detections
             in case (case required2 of
                        Required_Dict m \<Rightarrow> check_required_classes m class2detections
                      | _ \<Rightarrow> Some class2detections) of
                  None \<Rightarrow> Inr (False, [])
                | Some class2detections' \<Rightarrow>
                    (case class2confidence_of aggregation_mode class2detections' of
                       Inl e \<Rightarrow> Inl e
                     | Inr class2confidence \<Rightarrow> Inr (True, class2confidence)))"

section \<open>One batch element\<close>

text \<open>
  The loop of \<^verbatim>\<open>resolve_batch_consensus\<close> over \<^verbatim>\<open>enumerate_detections\<close>. The
  \<open>k\<close>-th call draws its fresh identifier as \<open>uuid4 k\<close>.
\<close>

fun consensus_loop ::
  "xyxy_fun \<Rightarrow> (nat \<Rightarrow> string) \<Rightarrow> detection list list \<Rightarrow> real \<Rightarrow> bool \<Rightarrow> int \<Rightarrow> real \<Rightarrow>
   AggregationMode \<Rightarrow> AggregationMode \<Rightarrow> nat \<Rightarrow> (nat \<times> detection) list \<Rightarrow>
   detection list \<Rightarrow> string set \<Rightarrow> error + (detection list \<times> string set)" where
  "consensus_loop to_xyxy uuid4 predictions iou_threshold class_aware required_votes
     confidence_threshold cmode bmode k [] consensus_detections considered =
     Inr (consensus_detections, considered)"
| "consensus_loop to_xyxy uuid4 predictions iou_threshold class_aware required_votes
     confidence_threshold cmode bmode k ((source_id, detection) # rest)
     consensus_detections considered =
     (case get_consensus_for_single_detection to_xyxy (uuid4 k) detection source_id predictions
             iou_threshold class_aware required_votes confidence_threshold cmode bmode
             considered of
        Inl e \<Rightarrow> Inl e
      | Inr (consensus_detections_update, considered') \<Rightarrow>
          consensus_loop to_xyxy uuid4 predictions iou_threshold class_aware required_votes
            confidence_threshold cmode bmode (Suc k) rest
            (consensus_detections @ consensus_detections_update) considered')"

type_synonym consensus_result = "string \<times> bool \<times> (string \<times> real) list \<times> detection list"

definition resolve_batch_consensus ::
  "xyxy_fun \<Rightarrow> (nat \<Rightarrow> string) \<Rightarrow> detection list list \<Rightarrow> int \<Rightarrow> bool \<Rightarrow> real \<Rightarrow> real \<Rightarrow>
   string list option \<Rightarrow> required_objects \<Rightarrow> AggregationMode \<Rightarrow> AggregationMode \<Rightarrow>
   AggregationMode \<Rightarrow> error + consensus_result" where
  "resolve_batch_consensus to_xyxy uuid4 predictions required_votes class_aware iou_threshold
     confidence_threshold classes_to_consider required presence_confidence_aggregation
     detections_merge_confidence_aggregation detections_merge_coordinates_aggregation =
     (if does_not_detected_objects_in_any_source predictions
      then Inr (''undefined'', False, [], [])
      else
        case get_parent_id_of_predictions_from_different_sources predictions of
          Inl e \<Rightarrow> Inl e
        | Inr pid \<Rightarrow>
            let filtered = filter_predictions predictions classes_to_consider
            in case consensus_loop to_xyxy uuid4 filtered iou_threshold class_aware
                      required_votes confidence_threshold
                      detections_merge_confidence_aggregation
                      detections_merge_coordinates_aggregation
                      0 (enumerate_detections filtered None) [] {} of
                 Inl e \<Rightarrow> Inl e
               | Inr (consensus_detections, considered) \<Rightarrow>
                   (case check_objects_presence_in_consensus_predictions consensus_detections
                           class_aware presence_confidence_aggregation required of
                      Inl e \<Rightarrow> Inl e
                    | Inr (object_present, presence_confidence) \<Rightarrow>
                        Inr (pid, object_present, presence_confidence, consensus_detections)))"

section \<open>Notions used to state the properties\<close>

text \<open>
  The intersection and union areas that \<^verbatim>\<open>calculate_iou\<close> computes, and the value
  it returns, as plain reals.
\<close>

definition box_intersection :: "xyxy_fun \<Rightarrow> detection \<Rightarrow> detection \<Rightarrow> real" where
  "box_intersection to_xyxy a b =
     (case to_xyxy a of (a0, a1, a2, a3) \<Rightarrow>
      case to_xyxy b of (b0, b1, b2, b3) \<Rightarrow>
        max 0 (min a2 b2 - max a0 b0) * max 0 (min a3 b3 - max a1 b1))"

definition box_union :: "xyxy_fun \<Rightarrow> detection \<Rightarrow> detection \<Rightarrow> real" where
  "box_union to_xyxy a b =
     height a * width a + height b * width b - box_intersection to_xyxy a b"

definition iou_of :: "xyxy_fun \<Rightarrow> detection \<Rightarrow> detection \<Rightarrow> real" where
  "iou_of to_xyxy a b =
     (if box_union to_xyxy a b = 0 then 0
      else box_intersection to_xyxy a b / box_union to_xyxy a b)"

text \<open>The box of a detection, its area as the code computes it, and the mean of a field.\<close>

definition box_of :: "detection \<Rightarrow> box" where
  "box_of d = (det_x d, det_y d, width d, height d)"

definition box_area :: "detection \<Rightarrow> real" where
  "box_area d = height d * width d"

definition field_mean :: "(detection \<Rightarrow> real) \<Rightarrow> detection list \<Rightarrow> real" where
  "field_mean field ds = sum_list (map field ds) / real (length ds)"

text \<open>
  A detection of another source is eligible for a seed when none of the three
  \<^verbatim>\<open>continue\<close> tests of the matching loop skips it. \<open>keep_best\<close> is what one round
  of the loop does to the entry of a source, and \<open>candidates_of\<close> lists the eligible
  detections of one source with their overlaps, in the order the loop meets them.
\<close>

definition eligible ::
  "xyxy_fun \<Rightarrow> detection \<Rightarrow> real \<Rightarrow> bool \<Rightarrow> string set \<Rightarrow> detection \<Rightarrow> bool" where
  "eligible to_xyxy detection iou_threshold class_aware considered other =
     (detection_id other \<notin> considered \<and>
      (class_aware \<longrightarrow> class_name detection = class_name other) \<and>
      iou_threshold < iou_of to_xyxy detection other)"

definition keep_best ::
  "(detection \<times> real) option \<Rightarrow> detection \<times> real \<Rightarrow> (detection \<times> real) option" where
  "keep_best kept candidate =
     (case kept of
        None \<Rightarrow> Some candidate
      | Some k \<Rightarrow> if snd k < snd candidate then Some candidate else Some k)"

definition candidates_of ::
  "xyxy_fun \<Rightarrow> detection \<Rightarrow> real \<Rightarrow> bool \<Rightarrow> string set \<Rightarrow> nat \<Rightarrow>
   (nat \<times> detection) list \<Rightarrow> (detection \<times> real) list" where
  "candidates_of to_xyxy d thr ca cons s es =
     map (\<lambda>e. (snd e, iou_of to_xyxy d (snd e)))
       (filter (\<lambda>e. fst e = s \<and> eligible to_xyxy d thr ca cons (snd e)) es)"

text \<open>
  The lineage of the outputs: the loop of \<^verbatim>\<open>resolve_batch_consensus\<close> run once more,
  pairing every merged detection it outputs with \<^verbatim>\<open>detections_to_merge\<close>, the group
  of raw detections it was merged from.
\<close>

fun consensus_lineage ::
  "xyxy_fun \<Rightarrow> (nat \<Rightarrow> string) \<Rightarrow> detection list list \<Rightarrow> real \<Rightarrow> bool \<Rightarrow> int \<Rightarrow> real \<Rightarrow>
   AggregationMode \<Rightarrow> AggregationMode \<Rightarrow> nat \<Rightarrow> (nat \<times> detection) list \<Rightarrow> string set \<Rightarrow>
   (detection \<times> detection list) list" where
  "consensus_lineage to_xyxy uuid4 predictions iou_threshold class_aware required_votes
     confidence_threshold cmode bmode k [] considered = []"
| "consensus_lineage to_xyxy uuid4 predictions iou_threshold class_aware required_votes
     confidence_threshold cmode bmode k ((source_id, detection) # rest) considered =
     (case get_consensus_for_single_detection to_xyxy (uuid4 k) detection source_id predictions
             iou_threshold class_aware required_votes confidence_threshold cmode bmode
             considered of
        Inl e \<Rightarrow> []
      | Inr (consensus_detections_update, considered') \<Rightarrow>
          map (\<lambda>merged_detection.
                 (merged_detection,
                  detection # detections_of_overlaps
                    (case get_detections_from_different_sources_with_max_overlap to_xyxy
                            detection source_id predictions iou_threshold class_aware
                            considered of
                       Inl e \<Rightarrow> []
                     | Inr detections_with_max_overlap \<Rightarrow> detections_with_max_overlap)))
              consensus_detections_update
          @ consensus_lineage to_xyxy uuid4 predictions iou_threshold class_aware required_votes
              confidence_threshold cmode bmode (Suc k) rest considered')"

definition lineage_ids :: "detection \<times> detection list \<Rightarrow> string set" where
  "lineage_ids entry = detection_id ` set (snd entry)"

fun groups_disjoint :: "string set list \<Rightarrow> bool" where
  "groups_disjoint [] = True"
| "groups_disjoint (g # gs) = ((\<forall>h\<in>set gs. g \<inter> h = {}) \<and> groups_disjoint gs)"

text \<open>
  The value of an aggregation mode on a non-empty list of reals, the merged detections of
  one class, and the condition the manifest puts on the counts of a class-to-count
  mapping (\<^verbatim>\<open>Dict[str, PositiveInt]\<close>).
\<close>

definition aggregate_of :: "AggregationMode \<Rightarrow> real list \<Rightarrow> real" where
  "aggregate_of mode vs =
     (case mode of
        Mode_AVERAGE \<Rightarrow> sum_list vs / real (length vs)
      | Mode_MAX \<Rightarrow> Max (set vs)
      | Mode_MIN \<Rightarrow> Min (set vs))"

definition of_class :: "string \<Rightarrow> detection list \<Rightarrow> detection list" where
  "of_class c ds = filter (\<lambda>d. class_name d = c) ds"


text \<open>
  The area, the intersection and the union as \<open>calculate_iou_fp\<close> computes them, and
  the reals that are within the range of a double.
\<close>

definition fp_area :: "detection \<Rightarrow> pyfloat" where
  "fp_area d = fp_mul (Num (height d)) (Num (width d))"

definition fp_intersection :: "xyxy_fp_fun \<Rightarrow> detection \<Rightarrow> detection \<Rightarrow> pyfloat" where
  "fp_intersection to_xyxy a b =
     (case to_xyxy a of (a0, a1, a2, a3) \<Rightarrow>
      case to_xyxy b of (b0, b1, b2, b3) \<Rightarrow>
        fp_mul (fp_max (Num 0) (fp_sub (fp_min a2 b2) (fp_max a0 b0)))
               (fp_max (Num 0) (fp_sub (fp_min a3 b3) (fp_max a1 b1))))"

definition fp_union :: "xyxy_fp_fun \<Rightarrow> detection \<Rightarrow> detection \<Rightarrow> pyfloat" where
  "fp_union to_xyxy a b =
     fp_sub (fp_add (fp_area a) (fp_area b)) (fp_intersection to_xyxy a b)"

definition in_float_range :: "real \<Rightarrow> bool" where
  "in_float_range r = (- float_max \<le> r \<and> r \<le> float_max)"

section \<open>Concrete inputs\<close>


definition half_a :: detection where
  "half_a =
     \<lparr>det_x = 0, det_y = 0, width = 2, height = 2, confidence = 1 / 2,
      class_name = ''cat'', class_id = 0, parent_id = ''img'', detection_id = ''a''\<rparr>"

definition half_b :: detection where
  "half_b =
     \<lparr>det_x = 1, det_y = 0, width = 4, height = 4, confidence = 1 / 2,
      class_name = ''cat'', class_id = 0, parent_id = ''img'', detection_id = ''b''\<rparr>"

definition cat_a :: detection where
  "cat_a =
     \<lparr>det_x = 5, det_y = 5, width = 10, height = 10, confidence = 9 / 10,
      class_name = ''cat'', class_id = 0, parent_id = ''img'', detection_id = ''a1''\<rparr>"

definition cat_b :: detection where
  "cat_b =
     \<lparr>det_x = 5, det_y = 5, width = 8, height = 8, confidence = 8 / 10,
      class_name = ''cat'', class_id = 0, parent_id = ''img'', detection_id = ''b1''\<rparr>"


definition merged_cat :: detection where
  "merged_cat =
     \<lparr>det_x = 5, det_y = 5, width = 9, height = 9, confidence = 17 / 20,
      class_name = ''cat'', class_id = 0, parent_id = ''img'', detection_id = ''m0''\<rparr>"

definition far_b :: detection where
  "far_b =
     \<lparr>det_x = 50, det_y = 50, width = 4, height = 4, confidence = 1 / 2,
      class_name = ''dog'', class_id = 1, parent_id = ''img'', detection_id = ''b3''\<rparr>"

definition merged_dog :: detection where
  "merged_dog =
     \<lparr>det_x = 50, det_y = 50, width = 4, height = 4, confidence = 1 / 2,
      class_name = ''dog'', class_id = 1, parent_id = ''img'', detection_id = ''m2''\<rparr>"

definition example_uuid4 :: "nat \<Rightarrow> string" where
  "example_uuid4 k = (if k = 0 then ''m0'' else if k = 1 then ''m1'' else ''m2'')"

definition two_groups :: "detection list list" where
  "two_groups = [[cat_a], [cat_b, far_b]]"

definition stray_b :: detection where
  "stray_b =
     \<lparr>det_x = 5, det_y = 5, width = 8, height = 8, confidence = 8 / 10,
      class_name = ''cat'', class_id = 0, parent_id = ''other'', detection_id = ''b9''\<rparr>"


section \<open>Intersection over union\<close>

lemma calculate_iou_eq: "calculate_iou to_xyxy a b = Inr (iou_of to_xyxy a b)"
proof -
  obtain a0 a1 a2 a3 where A: "to_xyxy a = (a0, a1, a2, a3)"
    by (cases "to_xyxy a") auto
  obtain b0 b1 b2 b3 where B: "to_xyxy b = (b0, b1, b2, b3)"
    by (cases "to_xyxy b") auto
  have S: "get_detection_sizes [a, b] ! 0 = height a * width a"
          "get_detection_sizes [a, b] ! 1 = height b * width b"
    by (simp_all add: get_detection_sizes_def)
  have guarded: "\<And>(u::real) i.
      (if u = 0 then Inr 0 else if u = 0 then Inl ZeroDivisionError else Inr (i / u))
        = (Inr (if u = 0 then 0 else i / u) :: error + real)"
    by simp
  show ?thesis
    unfolding calculate_iou_def iou_of_def box_union_def box_intersection_def py_truediv_def
      Let_def A B S prod.case
    by (rule guarded)
qed

lemma calculate_iou_fp_eq:
  "calculate_iou_fp to_xyxy a b =
     (if fp_union to_xyxy a b = Num 0 then Inr (Num 0)
      else py_truediv_fp (fp_intersection to_xyxy a b) (fp_union to_xyxy a b))"
proof -
  obtain a0 a1 a2 a3 where A: "to_xyxy a = (a0, a1, a2, a3)"
    by (cases "to_xyxy a") auto
  obtain b0 b1 b2 b3 where B: "to_xyxy b = (b0, b1, b2, b3)"
    by (cases "to_xyxy b") auto
  have S: "get_detection_sizes_fp [a, b] ! 0 = fp_area a"
          "get_detection_sizes_fp [a, b] ! 1 = fp_area b"
    by (simp_all add: get_detection_sizes_fp_def fp_area_def)
  show ?thesis
    unfolding calculate_iou_fp_def fp_union_def fp_intersection_def Let_def A B S prod.case
    by (rule refl)
qed





lemma py_float_in_range: "- float_max \<le> r \<Longrightarrow> r \<le> float_max \<Longrightarrow> py_float r = Num r"
  by (simp add: py_float_def)

lemma py_float_over: "float_max < r \<Longrightarrow> py_float r = PosInf"
  by (simp add: py_float_def)

lemma py_float_Num: "in_float_range r \<Longrightarrow> py_float r = Num r"
  by (simp add: in_float_range_def py_float_def)

lemma fp_max_Num: "fp_max (Num x) (Num y) = Num (max x y)"
  by (simp add: fp_max_def max_def)

lemma fp_min_Num: "fp_min (Num x) (Num y) = Num (min x y)"
  by (simp add: fp_min_def min_def)

lemma fp_sub_Num: "in_float_range (x - y) \<Longrightarrow> fp_sub (Num x) (Num y) = Num (x - y)"
  by (simp add: fp_sub_def py_float_Num)

text \<open>
  As long as no intermediate result leaves the range of a double, the float computation
  returns the value of the computation over the reals.
\<close>

lemma calculate_iou_fp_agrees:
  assumes A: "to_xyxy a = (a0, a1, a2, a3)" "to_xyxy_fp a = (Num a0, Num a1, Num a2, Num a3)"
    and B: "to_xyxy b = (b0, b1, b2, b3)" "to_xyxy_fp b = (Num b0, Num b1, Num b2, Num b3)"
    and dx: "in_float_range (min a2 b2 - max a0 b0)"
    and dy: "in_float_range (min a3 b3 - max a1 b1)"
    and i: "in_float_range (box_intersection to_xyxy a b)"
    and sa: "in_float_range (height a * width a)"
    and sb: "in_float_range (height b * width b)"
    and sab: "in_float_range (height a * width a + height b * width b)"
    and u: "in_float_range (box_union to_xyxy a b)"
    and q: "in_float_range (iou_of to_xyxy a b)"
  shows "calculate_iou_fp to_xyxy_fp a b = Inr (Num (iou_of to_xyxy a b))"
proof -
  have bi: "box_intersection to_xyxy a b =
        max 0 (min a2 b2 - max a0 b0) * max 0 (min a3 b3 - max a1 b1)"
    by (simp add: box_intersection_def A(1) B(1))
  have fi: "fp_intersection to_xyxy_fp a b = Num (box_intersection to_xyxy a b)"
    unfolding fp_intersection_def A(2) B(2) prod.case fp_max_Num fp_min_Num
      fp_sub_Num [OF dx] fp_sub_Num [OF dy] fp_mul.simps
    using i by (simp only: bi py_float_Num)
  have fa: "fp_area a = Num (height a * width a)" "fp_area b = Num (height b * width b)"
    by (simp_all add: fp_area_def py_float_Num sa sb)
  have fu: "fp_union to_xyxy_fp a b = Num (box_union to_xyxy a b)"
    unfolding fp_union_def fa fi fp_add.simps py_float_Num [OF sab]
    using u by (simp add: fp_sub_def py_float_Num box_union_def)
  show ?thesis
  proof (cases "box_union to_xyxy a b = 0")
    case True
    then show ?thesis by (simp add: calculate_iou_fp_eq fu iou_of_def)
  next
    case False
    have "py_float (box_intersection to_xyxy a b / box_union to_xyxy a b)
            = Num (iou_of to_xyxy a b)"
      using q False by (simp add: iou_of_def py_float_Num)
    with False show ?thesis
      by (simp add: calculate_iou_fp_eq fu fi py_truediv_fp_def)
  qed
qed








section \<open>Aggregation of field values\<close>

lemma fold_max_in: "fold max vs (v::real) \<in> set (v # vs)"
proof (induction vs arbitrary: v)
  case Nil
  show ?case by simp
next
  case (Cons a vs)
  have "fold max vs (max a v) \<in> set (max a v # vs)" by (rule Cons.IH)
  moreover have "max a v = a \<or> max a v = v" by (simp add: max_def)
  ultimately show ?case by auto
qed

lemma fold_max_ge: "\<forall>x\<in>set (v # vs). x \<le> fold max vs (v::real)"
proof (induction vs arbitrary: v)
  case Nil
  show ?case by simp
next
  case (Cons a vs)
  have step: "\<forall>y\<in>set (max a v # vs). y \<le> fold max vs (max a v)"
    by (rule Cons.IH)
  then have top: "max a v \<le> fold max vs (max a v)" by simp
  have "v \<le> fold max vs (max a v)" "a \<le> fold max vs (max a v)"
    using top by (simp_all add: max_def split: if_splits)
  with step show ?case by simp
qed

lemma fold_min_in: "fold min vs (v::real) \<in> set (v # vs)"
proof (induction vs arbitrary: v)
  case Nil
  show ?case by simp
next
  case (Cons a vs)
  have "fold min vs (min a v) \<in> set (min a v # vs)" by (rule Cons.IH)
  moreover have "min a v = a \<or> min a v = v" by (simp add: min_def)
  ultimately show ?case by auto
qed

lemma fold_min_le: "\<forall>x\<in>set (v # vs). fold min vs (v::real) \<le> x"
proof (induction vs arbitrary: v)
  case Nil
  show ?case by simp
next
  case (Cons a vs)
  have step: "\<forall>y\<in>set (min a v # vs). fold min vs (min a v) \<le> y"
    by (rule Cons.IH)
  then have top: "fold min vs (min a v) \<le> min a v" by simp
  have "fold min vs (min a v) \<le> v" "fold min vs (min a v) \<le> a"
    using top by (simp_all add: min_def split: if_splits)
  with step show ?case by simp
qed

lemma py_max_nonempty:
  "vs \<noteq> [] \<Longrightarrow> \<exists>m. py_max vs = Inr m \<and> m \<in> set vs \<and> (\<forall>x\<in>set vs. x \<le> m)"
proof (cases vs)
  case Nil
  assume "vs \<noteq> []" with Nil show ?thesis by simp
next
  case (Cons v rest)
  show ?thesis
    unfolding Cons py_max.simps
    using fold_max_in [of rest v] fold_max_ge [of v rest] by blast
qed

lemma py_min_nonempty:
  "vs \<noteq> [] \<Longrightarrow> \<exists>m. py_min vs = Inr m \<and> m \<in> set vs \<and> (\<forall>x\<in>set vs. m \<le> x)"
proof (cases vs)
  case Nil
  assume "vs \<noteq> []" with Nil show ?thesis by simp
next
  case (Cons v rest)
  show ?thesis
    unfolding Cons py_min.simps
    using fold_min_in [of rest v] fold_min_le [of v rest] by blast
qed

lemma first_index_enumerate:
  "wanted \<in> set vs \<Longrightarrow>
   \<exists>i<length vs.
      py_first (map fst (filter (\<lambda>(idx, v). v = wanted) (enumerate n vs))) = Inr (n + i) \<and>
      vs ! i = wanted \<and> (\<forall>j<i. vs ! j \<noteq> wanted)"
proof (induction vs arbitrary: n)
  case Nil
  then show ?case by simp
next
  case (Cons v vs)
  show ?case
  proof (cases "v = wanted")
    case True
    then show ?thesis by (intro exI [of _ 0]) simp
  next
    case False
    with Cons.prems have "wanted \<in> set vs" by simp
    from Cons.IH [OF this, of "Suc n"] obtain i where i: "i < length vs"
      "py_first (map fst (filter (\<lambda>(idx, v). v = wanted) (enumerate (Suc n) vs))) = Inr (Suc n + i)"
      "vs ! i = wanted" "\<forall>j<i. vs ! j \<noteq> wanted" by blast
    have "\<forall>j<Suc i. (v # vs) ! j \<noteq> wanted"
      using False i(4) by (auto simp: nth_Cons split: nat.splits)
    with i False show ?thesis by (intro exI [of _ "Suc i"]) simp
  qed
qed

lemma aggregate_nonempty:
  "ds \<noteq> [] \<Longrightarrow> \<exists>v. aggregate_field_values ds field mode = Inr v"
proof -
  assume ne: "ds \<noteq> []"
  then have m: "map field ds \<noteq> []" by simp
  show ?thesis
  proof (cases mode)
    case Mode_AVERAGE
    with m show ?thesis by (simp add: aggregate_field_values_def statistics_mean_def)
  next
    case Mode_MAX
    with py_max_nonempty [OF m] show ?thesis by (auto simp: aggregate_field_values_def)
  next
    case Mode_MIN
    with py_min_nonempty [OF m] show ?thesis by (auto simp: aggregate_field_values_def)
  qed
qed

section \<open>Box aggregation\<close>

lemma detection_of_size_first:
  assumes "wanted \<in> set (get_detection_sizes ds)"
  shows "\<exists>i<length ds. detection_of_size ds (get_detection_sizes ds) wanted = Inr (ds ! i) \<and>
           box_area (ds ! i) = wanted \<and> (\<forall>j<i. box_area (ds ! j) \<noteq> wanted)"
proof -
  from first_index_enumerate [OF assms, of 0] obtain i where i:
    "i < length (get_detection_sizes ds)"
    "py_first (map fst (filter (\<lambda>(idx, v). v = wanted) (enumerate 0 (get_detection_sizes ds))))
       = Inr (0 + i)"
    "get_detection_sizes ds ! i = wanted"
    "\<forall>j<i. get_detection_sizes ds ! j \<noteq> wanted"
    by blast
  have len: "i < length ds" using i(1) by (simp add: get_detection_sizes_def)
  have at: "\<And>j. j < length ds \<Longrightarrow> get_detection_sizes ds ! j = box_area (ds ! j)"
    by (simp add: get_detection_sizes_def box_area_def)
  have "detection_of_size ds (get_detection_sizes ds) wanted = Inr (ds ! i)"
    using i(2) len by (simp add: detection_of_size_def)
  moreover have "box_area (ds ! i) = wanted" using i(3) at [OF len] by simp
  moreover have "\<forall>j<i. box_area (ds ! j) \<noteq> wanted"
  proof (intro allI impI)
    fix j assume "j < i"
    then have "j < length ds" using len by simp
    from at [OF this] i(4) \<open>j < i\<close> show "box_area (ds ! j) \<noteq> wanted" by metis
  qed
  ultimately show ?thesis using len by blast
qed

lemma get_largest_bounding_box_first:
  assumes "ds \<noteq> []"
  shows "\<exists>i<length ds. get_largest_bounding_box ds = Inr (box_of (ds ! i)) \<and>
           (\<forall>j<length ds. box_area (ds ! j) \<le> box_area (ds ! i)) \<and>
           (\<forall>j<i. box_area (ds ! j) < box_area (ds ! i))"
proof -
  have ne: "get_detection_sizes ds \<noteq> []" using assms by (simp add: get_detection_sizes_def)
  from py_max_nonempty [OF ne] obtain m where m:
    "py_max (get_detection_sizes ds) = Inr m" "m \<in> set (get_detection_sizes ds)"
    "\<forall>x\<in>set (get_detection_sizes ds). x \<le> m" by blast
  from detection_of_size_first [OF m(2)] obtain i where i: "i < length ds"
    "detection_of_size ds (get_detection_sizes ds) m = Inr (ds ! i)"
    "box_area (ds ! i) = m" "\<forall>j<i. box_area (ds ! j) \<noteq> m" by blast
  have le: "\<forall>j<length ds. box_area (ds ! j) \<le> m"
  proof (intro allI impI)
    fix j assume j: "j < length ds"
    then have "box_area (ds ! j) \<in> set (get_detection_sizes ds)"
      by (auto simp: get_detection_sizes_def box_area_def)
    with m(3) show "box_area (ds ! j) \<le> m" by blast
  qed
  have "get_largest_bounding_box ds = Inr (box_of (ds ! i))"
    by (simp add: get_largest_bounding_box_def Let_def m(1) i(2) box_of_def)
  moreover have "\<forall>j<length ds. box_area (ds ! j) \<le> box_area (ds ! i)"
    using le i(3) by simp
  moreover have "\<forall>j<i. box_area (ds ! j) < box_area (ds ! i)"
  proof (intro allI impI)
    fix j assume j: "j < i"
    then have "j < length ds" using i(1) by simp
    with le have "box_area (ds ! j) \<le> m" by blast
    moreover from i(4) j have "box_area (ds ! j) \<noteq> m" by blast
    ultimately show "box_area (ds ! j) < box_area (ds ! i)" using i(3) by simp
  qed
  ultimately show ?thesis using i(1) by blast
qed

lemma get_smallest_bounding_box_first:
  assumes "ds \<noteq> []"
  shows "\<exists>i<length ds. get_smallest_bounding_box ds = Inr (box_of (ds ! i)) \<and>
           (\<forall>j<length ds. box_area (ds ! i) \<le> box_area (ds ! j)) \<and>
           (\<forall>j<i. box_area (ds ! i) < box_area (ds ! j))"
proof -
  have ne: "get_detection_sizes ds \<noteq> []" using assms by (simp add: get_detection_sizes_def)
  from py_min_nonempty [OF ne] obtain m where m:
    "py_min (get_detection_sizes ds) = Inr m" "m \<in> set (get_detection_sizes ds)"
    "\<forall>x\<in>set (get_detection_sizes ds). m \<le> x" by blast
  from detection_of_size_first [OF m(2)] obtain i where i: "i < length ds"
    "detection_of_size ds (get_detection_sizes ds) m = Inr (ds ! i)"
    "box_area (ds ! i) = m" "\<forall>j<i. box_area (ds ! j) \<noteq> m" by blast
  have le: "\<forall>j<length ds. m \<le> box_area (ds ! j)"
  proof (intro allI impI)
    fix j assume j: "j < length ds"
    then have "box_area (ds ! j) \<in> set (get_detection_sizes ds)"
      by (auto simp: get_detection_sizes_def box_area_def)
    with m(3) show "m \<le> box_area (ds ! j)" by blast
  qed
  have "get_smallest_bounding_box ds = Inr (box_of (ds ! i))"
    by (simp add: get_smallest_bounding_box_def Let_def m(1) i(2) box_of_def)
  moreover have "\<forall>j<length ds. box_area (ds ! i) \<le> box_area (ds ! j)"
    using le i(3) by simp
  moreover have "\<forall>j<i. box_area (ds ! i) < box_area (ds ! j)"
  proof (intro allI impI)
    fix j assume j: "j < i"
    then have "j < length ds" using i(1) by simp
    with le have "m \<le> box_area (ds ! j)" by blast
    moreover from i(4) j have "box_area (ds ! j) \<noteq> m" by blast
    ultimately show "box_area (ds ! i) < box_area (ds ! j)" using i(3) by simp
  qed
  ultimately show ?thesis using i(1) by blast
qed

lemma get_average_bounding_box_eq:
  assumes "ds \<noteq> []"
  shows "get_average_bounding_box ds =
           Inr (of_int (py_round (field_mean det_x ds)), of_int (py_round (field_mean det_y ds)),
                of_int (py_round (field_mean width ds)), of_int (py_round (field_mean height ds)))"
  using assms
  by (simp add: get_average_bounding_box_def aggregate_field_values_def statistics_mean_def
      field_mean_def)

text \<open>
  C8 (amended). For a non-empty group, box aggregation in mode AVERAGE returns, for each of
  x, y, width and height, the arithmetic mean over the members rounded to the nearest
  integer (halves to even); mode MAX returns the whole box of the first member of largest
  area, and mode MIN the whole box of the first member of smallest area.
\<close>

theorem boxes_aggregation_modes:
  assumes "detections \<noteq> []"
  shows "AGGREGATION_MODE2BOXES_AGGREGATOR Mode_AVERAGE detections =
           Inr (of_int (py_round (field_mean det_x detections)),
                of_int (py_round (field_mean det_y detections)),
                of_int (py_round (field_mean width detections)),
                of_int (py_round (field_mean height detections))) \<and>
         (\<exists>i<length detections.
            AGGREGATION_MODE2BOXES_AGGREGATOR Mode_MAX detections = Inr (box_of (detections ! i)) \<and>
            (\<forall>j<length detections. box_area (detections ! j) \<le> box_area (detections ! i)) \<and>
            (\<forall>j<i. box_area (detections ! j) < box_area (detections ! i))) \<and>
         (\<exists>i<length detections.
            AGGREGATION_MODE2BOXES_AGGREGATOR Mode_MIN detections = Inr (box_of (detections ! i)) \<and>
            (\<forall>j<length detections. box_area (detections ! i) \<le> box_area (detections ! j)) \<and>
            (\<forall>j<i. box_area (detections ! i) < box_area (detections ! j)))"
  using get_average_bounding_box_eq [OF assms] get_largest_bounding_box_first [OF assms]
    get_smallest_bounding_box_first [OF assms]
  by simp

lemma py_round_half: "py_round (1 / 2) = 0"
  by (simp add: py_round_def Let_def)

lemma py_round_int: "py_round (of_int n) = n"
  by (simp add: py_round_def Let_def)

lemma half_boxes_extremes:
  "AGGREGATION_MODE2BOXES_AGGREGATOR Mode_MAX [half_a, half_b] = Inr (box_of half_b)"
  "AGGREGATION_MODE2BOXES_AGGREGATOR Mode_MIN [half_a, half_b] = Inr (box_of half_a)"
  by (simp_all add: get_largest_bounding_box_def get_smallest_bounding_box_def
      get_detection_sizes_def detection_of_size_def enumerate_eq_zip upt_rec box_of_def
      half_a_def half_b_def)

theorem boxes_aggregation_modes_witness:
  "[half_a, half_b] \<noteq> [] \<and>
   AGGREGATION_MODE2BOXES_AGGREGATOR Mode_AVERAGE [half_a, half_b] = Inr (0, 0, 3, 3) \<and>
   AGGREGATION_MODE2BOXES_AGGREGATOR Mode_MAX [half_a, half_b] = Inr (box_of half_b) \<and>
   AGGREGATION_MODE2BOXES_AGGREGATOR Mode_MIN [half_a, half_b] = Inr (box_of half_a)"
proof -
  from boxes_aggregation_modes [of "[half_a, half_b]"]
  have "AGGREGATION_MODE2BOXES_AGGREGATOR Mode_AVERAGE [half_a, half_b] = Inr (0, 0, 3, 3)"
    by (simp add: field_mean_def half_a_def half_b_def py_round_half
        py_round_int [of 3, simplified] py_round_int [of 0, simplified])
  with half_boxes_extremes show ?thesis by simp
qed

text \<open>
  C8 as stated fails for AVERAGE: for two members with x = 0 and x = 1 the mean is 1/2,
  and the box returned has x = 0.
\<close>

theorem boxes_average_is_rounded_counterexample:
  "AGGREGATION_MODE2BOXES_AGGREGATOR Mode_AVERAGE [half_a, half_b] \<noteq>
     Inr (field_mean det_x [half_a, half_b], field_mean det_y [half_a, half_b],
          field_mean width [half_a, half_b], field_mean height [half_a, half_b])"
  by (simp add: get_average_bounding_box_def aggregate_field_values_def statistics_mean_def
       field_mean_def half_a_def half_b_def py_round_half)

section \<open>Merging never fails on a non-empty group\<close>

lemma counter_add_keys: "fst ` set (counter_add acc c) = insert c (fst ` set acc)"
  by (induction acc c rule: counter_add.induct) auto

lemma Counter_keys_acc: "fst ` set (foldl counter_add acc cs) = fst ` set acc \<union> set cs"
  by (induction cs arbitrary: acc) (auto simp: counter_add_keys)

lemma Counter_keys: "fst ` set (Counter cs) = set cs"
  by (simp add: Counter_def Counter_keys_acc)

lemma first_greatest_in: "first_greatest best es \<in> set (best # es)"
proof (induction es arbitrary: best)
  case Nil
  show ?case by simp
next
  case (Cons e es)
  have "first_greatest (if snd best < snd e then e else best) es
          \<in> set ((if snd best < snd e then e else best) # es)"
    by (rule Cons.IH)
  then show ?case by (auto split: if_splits)
qed

lemma most_common_1_nonempty:
  assumes "counts \<noteq> []"
  shows "\<exists>c n. most_common_1 counts = Inr (c, n) \<and> c \<in> fst ` set counts"
proof (cases counts)
  case Nil
  with assms show ?thesis by simp
next
  case (Cons e es)
  obtain c n where cn: "first_greatest e es = (c, n)" by (cases "first_greatest e es")
  have "(c, n) \<in> set (e # es)" using first_greatest_in [of e es] cn by simp
  then have "c \<in> fst ` set (e # es)" by force
  with cn show ?thesis unfolding Cons by simp
qed

lemma get_majority_class_total:
  assumes "ds \<noteq> []"
  shows "\<exists>r. get_majority_class ds = Inr r"
proof -
  have "fst ` set (Counter (map class_name ds)) = class_name ` set ds"
    by (simp add: Counter_keys)
  moreover have "class_name ` set ds \<noteq> {}" using assms by simp
  ultimately have ne: "Counter (map class_name ds) \<noteq> []" by auto
  from most_common_1_nonempty [OF ne] obtain c n where cn:
    "most_common_1 (Counter (map class_name ds)) = Inr (c, n)"
    "c \<in> fst ` set (Counter (map class_name ds))" by blast
  from cn(2) have "c \<in> class_name ` set ds" by (simp add: Counter_keys)
  then have "filter (\<lambda>d. class_name d = c) ds \<noteq> []"
    by (auto simp: filter_empty_conv)
  then obtain d rest where "filter (\<lambda>d. class_name d = c) ds = d # rest"
    by (cases "filter (\<lambda>d. class_name d = c) ds") auto
  then show ?thesis by (simp add: get_majority_class_def cn(1))
qed

lemma get_class_of_most_confident_detection_total:
  assumes "ds \<noteq> []"
  shows "\<exists>r. get_class_of_most_confident_detection ds = Inr r"
proof -
  have ne: "map confidence ds \<noteq> []" using assms by simp
  from py_max_nonempty [OF ne] obtain m where m:
    "py_max (map confidence ds) = Inr m" "m \<in> set (map confidence ds)" by blast
  from m(2) have "filter (\<lambda>d. confidence d = m) ds \<noteq> []"
    by (auto simp: filter_empty_conv)
  then obtain d rest where "filter (\<lambda>d. confidence d = m) ds = d # rest"
    by (cases "filter (\<lambda>d. confidence d = m) ds") auto
  then show ?thesis
    by (simp add: get_class_of_most_confident_detection_def aggregate_field_values_def m(1))
qed

lemma get_class_of_least_confident_detection_total:
  assumes "ds \<noteq> []"
  shows "\<exists>r. get_class_of_least_confident_detection ds = Inr r"
proof -
  have ne: "map confidence ds \<noteq> []" using assms by simp
  from py_min_nonempty [OF ne] obtain m where m:
    "py_min (map confidence ds) = Inr m" "m \<in> set (map confidence ds)" by blast
  from m(2) have "filter (\<lambda>d. confidence d = m) ds \<noteq> []"
    by (auto simp: filter_empty_conv)
  then obtain d rest where "filter (\<lambda>d. confidence d = m) ds = d # rest"
    by (cases "filter (\<lambda>d. confidence d = m) ds") auto
  then show ?thesis
    by (simp add: get_class_of_least_confident_detection_def aggregate_field_values_def m(1))
qed

lemma class_selector_total:
  assumes "ds \<noteq> []"
  shows "\<exists>r. AGGREGATION_MODE2CLASS_SELECTOR mode ds = Inr r"
  using get_majority_class_total [OF assms] get_class_of_most_confident_detection_total [OF assms]
    get_class_of_least_confident_detection_total [OF assms]
  by (cases mode) simp_all

lemma boxes_aggregator_total:
  assumes "ds \<noteq> []"
  shows "\<exists>r. AGGREGATION_MODE2BOXES_AGGREGATOR mode ds = Inr r"
proof (cases mode)
  case Mode_AVERAGE
  then show ?thesis using get_average_bounding_box_eq [OF assms] by simp
next
  case Mode_MAX
  then show ?thesis using get_largest_bounding_box_first [OF assms]
    by (simp only: AGGREGATION_MODE2BOXES_AGGREGATOR.simps) blast
next
  case Mode_MIN
  then show ?thesis using get_smallest_bounding_box_first [OF assms]
    by (simp only: AGGREGATION_MODE2BOXES_AGGREGATOR.simps) blast
qed

lemma merge_detections_nonempty:
  "\<exists>m. merge_detections uuid (d # ds) cmode bmode = Inr m \<and>
       aggregate_field_values (d # ds) confidence cmode = Inr (confidence m) \<and>
       parent_id m = parent_id d \<and> detection_id m = uuid"
proof -
  have ne: "d # ds \<noteq> []" by simp
  from class_selector_total [OF ne, of cmode] obtain cname cid where
    c: "AGGREGATION_MODE2CLASS_SELECTOR cmode (d # ds) = Inr (cname, cid)" by force
  from boxes_aggregator_total [OF ne, of bmode] obtain bx "by" bw bh where
    b: "AGGREGATION_MODE2BOXES_AGGREGATOR bmode (d # ds) = Inr (bx, by, bw, bh)"
    by (metis prod_cases4)
  from aggregate_nonempty [OF ne, of confidence cmode] obtain v where
    v: "aggregate_field_values (d # ds) confidence cmode = Inr v" by blast
  show ?thesis by (simp add: merge_detections_def c b v)
qed

section \<open>Selection of the best overlapping candidate\<close>

lemma map_of_dict_set: "map_of (dict_set d k v) = (map_of d)(k \<mapsto> v)"
  by (induction d k v rule: dict_set.induct) auto

lemma dict_set_keys: "fst ` set (dict_set d k v) = insert k (fst ` set d)"
  by (induction d k v rule: dict_set.induct) auto

lemma dict_set_distinct: "distinct (map fst d) \<Longrightarrow> distinct (map fst (dict_set d k v))"
  by (induction d k v rule: dict_set.induct) (auto simp: dict_set_keys)

lemma max_overlap_loop_skip:
  assumes "\<not> eligible to_xyxy d thr ca cons other"
  shows "max_overlap_loop to_xyxy d thr ca cons ((s, other) # rest) cur =
           max_overlap_loop to_xyxy d thr ca cons rest cur"
  using assms by (auto simp: eligible_def calculate_iou_eq)

lemma max_overlap_loop_take:
  assumes "eligible to_xyxy d thr ca cons other"
  shows "\<exists>cur'. max_overlap_loop to_xyxy d thr ca cons ((s, other) # rest) cur =
                  max_overlap_loop to_xyxy d thr ca cons rest cur' \<and>
               map_of cur' = (map_of cur)(s := keep_best (map_of cur s)
                                                  (other, iou_of to_xyxy d other)) \<and>
               (distinct (map fst cur) \<longrightarrow> distinct (map fst cur'))"
proof -
  let ?v = "iou_of to_xyxy d other"
  have f: "detection_id other \<notin> cons" "\<not> (ca \<and> class_name d \<noteq> class_name other)"
    "\<not> ?v \<le> thr"
    using assms by (auto simp: eligible_def)
  show ?thesis
  proof (cases "map_of cur s")
    case None
    let ?c = "dict_set cur s (other, ?v)"
    have m: "map_of ?c s = Some (other, ?v)" by (simp add: map_of_dict_set)
    have "max_overlap_loop to_xyxy d thr ca cons ((s, other) # rest) cur =
            max_overlap_loop to_xyxy d thr ca cons rest ?c"
      by (simp add: f calculate_iou_eq None m Let_def)
    moreover have "map_of ?c = (map_of cur)(s := keep_best (map_of cur s) (other, ?v))"
      by (simp add: None map_of_dict_set keep_best_def)
    moreover have "distinct (map fst cur) \<longrightarrow> distinct (map fst ?c)"
      by (simp add: dict_set_distinct)
    ultimately show ?thesis by blast
  next
    case (Some k)
    let ?c = "if snd k < ?v then dict_set cur s (other, ?v) else cur"
    have "max_overlap_loop to_xyxy d thr ca cons ((s, other) # rest) cur =
            max_overlap_loop to_xyxy d thr ca cons rest ?c"
      by (simp add: f calculate_iou_eq Some Let_def)
    moreover have "map_of ?c = (map_of cur)(s := keep_best (map_of cur s) (other, ?v))"
      using Some by (auto simp: map_of_dict_set keep_best_def)
    moreover have "distinct (map fst cur) \<longrightarrow> distinct (map fst ?c)"
      by (simp add: dict_set_distinct)
    ultimately show ?thesis by blast
  qed
qed

lemma max_overlap_loop_result:
  "\<exists>r. max_overlap_loop to_xyxy d thr ca cons es cur = Inr r \<and>
       (\<forall>s. map_of r s = foldl keep_best (map_of cur s) (candidates_of to_xyxy d thr ca cons s es)) \<and>
       (distinct (map fst cur) \<longrightarrow> distinct (map fst r))"
proof (induction es arbitrary: cur)
  case Nil
  show ?case by (simp add: candidates_of_def)
next
  case (Cons e es)
  obtain s other where e: "e = (s, other)" by (cases e)
  show ?case
  proof (cases "eligible to_xyxy d thr ca cons other")
    case False
    have same: "\<And>s'. candidates_of to_xyxy d thr ca cons s' (e # es) =
                   candidates_of to_xyxy d thr ca cons s' es"
      using False by (simp add: candidates_of_def e)
    show ?thesis
      unfolding e max_overlap_loop_skip [OF False] same [unfolded e]
      by (rule Cons.IH)
  next
    case True
    from max_overlap_loop_take [OF True, of s rest cur for rest]
    obtain cur' where c:
      "max_overlap_loop to_xyxy d thr ca cons ((s, other) # es) cur =
         max_overlap_loop to_xyxy d thr ca cons es cur'"
      "map_of cur' = (map_of cur)(s := keep_best (map_of cur s) (other, iou_of to_xyxy d other))"
      "distinct (map fst cur) \<longrightarrow> distinct (map fst cur')"
      by blast
    from Cons.IH [of cur'] obtain r where r:
      "max_overlap_loop to_xyxy d thr ca cons es cur' = Inr r"
      "\<forall>s'. map_of r s' = foldl keep_best (map_of cur' s') (candidates_of to_xyxy d thr ca cons s' es)"
      "distinct (map fst cur') \<longrightarrow> distinct (map fst r)"
      by blast
    have "\<forall>s'. map_of r s' =
            foldl keep_best (map_of cur s') (candidates_of to_xyxy d thr ca cons s' (e # es))"
    proof
      fix s'
      show "map_of r s' =
            foldl keep_best (map_of cur s') (candidates_of to_xyxy d thr ca cons s' (e # es))"
        using r(2) c(2) True by (cases "s' = s") (simp_all add: candidates_of_def e)
    qed
    with r(1) r(3) c(1) c(3) show ?thesis unfolding e by auto
  qed
qed

lemma enumerate_detections_source_gen:
  "filter (\<lambda>e. fst e = s)
     (concat (map (\<lambda>(source_id, detections).
                     if excluded = Some source_id then [] else map (Pair source_id) detections)
                  (enumerate n predictions))) =
   (if n \<le> s \<and> s < n + length predictions \<and> excluded \<noteq> Some s
    then map (Pair s) (predictions ! (s - n)) else [])"
proof (induction predictions arbitrary: n)
  case Nil
  show ?case by auto
next
  case (Cons p ps)
  have head: "filter (\<lambda>e. fst e = s) (map (Pair n) p) = (if n = s then map (Pair n) p else [])"
    by (induction p) auto
  show ?case
  proof (cases "n = s")
    case True
    then show ?thesis using Cons.IH [of "Suc n"] head by simp
  next
    case False
    have "n \<le> s \<and> s < n + length (p # ps) \<longleftrightarrow> Suc n \<le> s \<and> s < Suc n + length ps"
      using False by auto
    moreover have "n \<le> s \<Longrightarrow> (p # ps) ! (s - n) = ps ! (s - Suc n)"
    proof -
      assume "n \<le> s"
      with False have "s - n = Suc (s - Suc n)" by simp
      then show ?thesis by simp
    qed
    ultimately show ?thesis using Cons.IH [of "Suc n"] head False by auto
  qed
qed

lemma enumerate_detections_source:
  "filter (\<lambda>e. fst e = s) (enumerate_detections predictions excluded) =
   (if s < length predictions \<and> excluded \<noteq> Some s then map (Pair s) (predictions ! s) else [])"
  using enumerate_detections_source_gen [of s excluded 0 predictions]
  by (simp add: enumerate_detections_def)

lemma candidates_of_source:
  "candidates_of to_xyxy d thr ca cons s (enumerate_detections predictions (Some source)) =
   (if s < length predictions \<and> s \<noteq> source
    then map (\<lambda>c. (c, iou_of to_xyxy d c))
           (filter (eligible to_xyxy d thr ca cons) (predictions ! s))
    else [])"
proof -
  have split: "\<And>es. filter (\<lambda>e. fst e = s \<and> eligible to_xyxy d thr ca cons (snd e)) es =
                 filter (\<lambda>e. eligible to_xyxy d thr ca cons (snd e)) (filter (\<lambda>e. fst e = s) es)"
    by (simp add: conj_commute)
  show ?thesis
    unfolding candidates_of_def split enumerate_detections_source
    by (simp add: filter_map comp_def)
qed

lemma keep_best_fold:
  fixes w :: "detection \<Rightarrow> real" and P :: "detection \<Rightarrow> bool"
  defines "best \<equiv> \<lambda>cs. foldl keep_best None (map (\<lambda>c. (c, w c)) (filter P cs))"
  shows "(best cs = None \<and> (\<forall>c\<in>set cs. \<not> P c)) \<or>
         (\<exists>i<length cs. best cs = Some (cs ! i, w (cs ! i)) \<and> P (cs ! i) \<and>
            (\<forall>j<length cs. P (cs ! j) \<longrightarrow> w (cs ! j) \<le> w (cs ! i)) \<and>
            (\<forall>j<i. P (cs ! j) \<longrightarrow> w (cs ! j) < w (cs ! i)))"
proof (induction cs rule: rev_induct)
  case Nil
  show ?case by (simp add: best_def)
next
  case (snoc x xs)
  show ?case
  proof (cases "P x")
    case False
    have same: "best (xs @ [x]) = best xs" using False by (simp add: best_def)
    from snoc show ?thesis
    proof
      assume "best xs = None \<and> (\<forall>c\<in>set xs. \<not> P c)"
      then show ?thesis using False same by simp
    next
      assume "\<exists>i<length xs. best xs = Some (xs ! i, w (xs ! i)) \<and> P (xs ! i) \<and>
            (\<forall>j<length xs. P (xs ! j) \<longrightarrow> w (xs ! j) \<le> w (xs ! i)) \<and>
            (\<forall>j<i. P (xs ! j) \<longrightarrow> w (xs ! j) < w (xs ! i))"
      then obtain i where i: "i < length xs" "best xs = Some (xs ! i, w (xs ! i))" "P (xs ! i)"
        "\<forall>j<length xs. P (xs ! j) \<longrightarrow> w (xs ! j) \<le> w (xs ! i)"
        "\<forall>j<i. P (xs ! j) \<longrightarrow> w (xs ! j) < w (xs ! i)" by blast
      have "i < length (xs @ [x])" using i(1) by simp
      moreover have "best (xs @ [x]) = Some ((xs @ [x]) ! i, w ((xs @ [x]) ! i))"
        using same i(1) i(2) by (simp add: nth_append)
      moreover have "P ((xs @ [x]) ! i)" using i(1) i(3) by (simp add: nth_append)
      moreover have "\<forall>j<length (xs @ [x]). P ((xs @ [x]) ! j) \<longrightarrow>
                        w ((xs @ [x]) ! j) \<le> w ((xs @ [x]) ! i)"
        using i(1) i(4) False by (auto simp: nth_append)
      moreover have "\<forall>j<i. P ((xs @ [x]) ! j) \<longrightarrow> w ((xs @ [x]) ! j) < w ((xs @ [x]) ! i)"
        using i(1) i(5) by (auto simp: nth_append)
      ultimately show ?thesis by blast
    qed
  next
    case True
    have step: "best (xs @ [x]) = keep_best (best xs) (x, w x)"
      using True by (simp add: best_def)
    from snoc show ?thesis
    proof
      assume none: "best xs = None \<and> (\<forall>c\<in>set xs. \<not> P c)"
      have "length xs < length (xs @ [x])" by simp
      moreover have "best (xs @ [x]) = Some ((xs @ [x]) ! length xs, w ((xs @ [x]) ! length xs))"
        using step none by (simp add: keep_best_def)
      moreover have "P ((xs @ [x]) ! length xs)" using True by simp
      moreover have "\<forall>j<length (xs @ [x]). P ((xs @ [x]) ! j) \<longrightarrow>
                        w ((xs @ [x]) ! j) \<le> w ((xs @ [x]) ! length xs)"
        using none by (auto simp: nth_append)
      moreover have "\<forall>j<length xs. P ((xs @ [x]) ! j) \<longrightarrow>
                        w ((xs @ [x]) ! j) < w ((xs @ [x]) ! length xs)"
        using none by (auto simp: nth_append)
      ultimately show ?thesis by blast
    next
      assume "\<exists>i<length xs. best xs = Some (xs ! i, w (xs ! i)) \<and> P (xs ! i) \<and>
            (\<forall>j<length xs. P (xs ! j) \<longrightarrow> w (xs ! j) \<le> w (xs ! i)) \<and>
            (\<forall>j<i. P (xs ! j) \<longrightarrow> w (xs ! j) < w (xs ! i))"
      then obtain i where i: "i < length xs" "best xs = Some (xs ! i, w (xs ! i))" "P (xs ! i)"
        "\<forall>j<length xs. P (xs ! j) \<longrightarrow> w (xs ! j) \<le> w (xs ! i)"
        "\<forall>j<i. P (xs ! j) \<longrightarrow> w (xs ! j) < w (xs ! i)" by blast
      show ?thesis
      proof (cases "w (xs ! i) < w x")
        case better: True
        have "length xs < length (xs @ [x])" by simp
        moreover have "best (xs @ [x]) =
                         Some ((xs @ [x]) ! length xs, w ((xs @ [x]) ! length xs))"
          using step i(2) better by (simp add: keep_best_def)
        moreover have "P ((xs @ [x]) ! length xs)" using True by simp
        moreover have "\<forall>j<length (xs @ [x]). P ((xs @ [x]) ! j) \<longrightarrow>
                          w ((xs @ [x]) ! j) \<le> w ((xs @ [x]) ! length xs)"
          using i(4) better by (fastforce simp: nth_append)
        moreover have "\<forall>j<length xs. P ((xs @ [x]) ! j) \<longrightarrow>
                          w ((xs @ [x]) ! j) < w ((xs @ [x]) ! length xs)"
          using i(4) better by (fastforce simp: nth_append)
        ultimately show ?thesis by blast
      next
        case worse: False
        have "i < length (xs @ [x])" using i(1) by simp
        moreover have "best (xs @ [x]) = Some ((xs @ [x]) ! i, w ((xs @ [x]) ! i))"
          using step i(1) i(2) worse by (simp add: keep_best_def nth_append)
        moreover have "P ((xs @ [x]) ! i)" using i(1) i(3) by (simp add: nth_append)
        moreover have "\<forall>j<length (xs @ [x]). P ((xs @ [x]) ! j) \<longrightarrow>
                          w ((xs @ [x]) ! j) \<le> w ((xs @ [x]) ! i)"
          using i(1) i(4) worse by (auto simp: nth_append)
        moreover have "\<forall>j<i. P ((xs @ [x]) ! j) \<longrightarrow> w ((xs @ [x]) ! j) < w ((xs @ [x]) ! i)"
          using i(1) i(5) by (auto simp: nth_append)
        ultimately show ?thesis by blast
      qed
    qed
  qed
qed

lemma max_overlap_char:
  "\<exists>r. get_detections_from_different_sources_with_max_overlap to_xyxy d source predictions
           thr ca cons = Inr r \<and>
       distinct (map fst r) \<and>
       (\<forall>s c v. (s, c, v) \<in> set r \<longrightarrow>
          s \<noteq> source \<and> s < length predictions \<and>
          (\<exists>i<length (predictions ! s).
             c = predictions ! s ! i \<and> v = iou_of to_xyxy d c \<and>
             eligible to_xyxy d thr ca cons c \<and>
             (\<forall>j<length (predictions ! s).
                eligible to_xyxy d thr ca cons (predictions ! s ! j) \<longrightarrow>
                iou_of to_xyxy d (predictions ! s ! j) \<le> v) \<and>
             (\<forall>j<i. eligible to_xyxy d thr ca cons (predictions ! s ! j) \<longrightarrow>
                iou_of to_xyxy d (predictions ! s ! j) < v))) \<and>
       (\<forall>s. s \<noteq> source \<and> s < length predictions \<and>
            (\<exists>c\<in>set (predictions ! s). eligible to_xyxy d thr ca cons c) \<longrightarrow>
            s \<in> fst ` set r)"
proof -
  let ?es = "enumerate_detections predictions (Some source)"
  let ?P = "eligible to_xyxy d thr ca cons"
  let ?w = "iou_of to_xyxy d"
  from max_overlap_loop_result [of to_xyxy d thr ca cons ?es "[]"] obtain r where r:
    "max_overlap_loop to_xyxy d thr ca cons ?es [] = Inr r"
    "\<forall>s. map_of r s = foldl keep_best None (candidates_of to_xyxy d thr ca cons s ?es)"
    "distinct (map fst r)" by auto
  have look: "\<And>s. map_of r s =
      (if s < length predictions \<and> s \<noteq> source
       then foldl keep_best None (map (\<lambda>c. (c, ?w c)) (filter ?P (predictions ! s)))
       else None)"
    using r(2) by (simp add: candidates_of_source)
  have sel: "\<forall>s c v. (s, c, v) \<in> set r \<longrightarrow>
          s \<noteq> source \<and> s < length predictions \<and>
          (\<exists>i<length (predictions ! s).
             c = predictions ! s ! i \<and> v = ?w c \<and> ?P c \<and>
             (\<forall>j<length (predictions ! s). ?P (predictions ! s ! j) \<longrightarrow>
                ?w (predictions ! s ! j) \<le> v) \<and>
             (\<forall>j<i. ?P (predictions ! s ! j) \<longrightarrow> ?w (predictions ! s ! j) < v))"
  proof (intro allI impI)
    fix s c v
    assume "(s, c, v) \<in> set r"
    with r(3) have m: "map_of r s = Some (c, v)" by simp
    with look [of s] have in_range: "s < length predictions \<and> s \<noteq> source"
      by (auto split: if_splits)
    with look [of s] m have b: "foldl keep_best None
        (map (\<lambda>c. (c, ?w c)) (filter ?P (predictions ! s))) = Some (c, v)" by simp
    from keep_best_fold [of ?w ?P "predictions ! s"] b
    obtain i where "i < length (predictions ! s)"
      "Some (c, v) = Some (predictions ! s ! i, ?w (predictions ! s ! i))"
      "?P (predictions ! s ! i)"
      "\<forall>j<length (predictions ! s). ?P (predictions ! s ! j) \<longrightarrow>
          ?w (predictions ! s ! j) \<le> ?w (predictions ! s ! i)"
      "\<forall>j<i. ?P (predictions ! s ! j) \<longrightarrow> ?w (predictions ! s ! j) < ?w (predictions ! s ! i)"
      by auto
    then show "s \<noteq> source \<and> s < length predictions \<and>
          (\<exists>i<length (predictions ! s).
             c = predictions ! s ! i \<and> v = ?w c \<and> ?P c \<and>
             (\<forall>j<length (predictions ! s). ?P (predictions ! s ! j) \<longrightarrow>
                ?w (predictions ! s ! j) \<le> v) \<and>
             (\<forall>j<i. ?P (predictions ! s ! j) \<longrightarrow> ?w (predictions ! s ! j) < v))"
      using in_range by auto
  qed
  have cover: "\<forall>s. s \<noteq> source \<and> s < length predictions \<and>
            (\<exists>c\<in>set (predictions ! s). ?P c) \<longrightarrow> s \<in> fst ` set r"
  proof (intro allI impI)
    fix s
    assume a: "s \<noteq> source \<and> s < length predictions \<and> (\<exists>c\<in>set (predictions ! s). ?P c)"
    from keep_best_fold [of ?w ?P "predictions ! s"] a
    have "foldl keep_best None (map (\<lambda>c. (c, ?w c)) (filter ?P (predictions ! s))) \<noteq> None"
      by auto
    with look [of s] a have "map_of r s \<noteq> None" by simp
    then show "s \<in> fst ` set r" by (simp add: map_of_eq_None_iff)
  qed
  from r(1) r(3) sel cover show ?thesis
    unfolding get_detections_from_different_sources_with_max_overlap_def by blast
qed




section \<open>Voting on one seed detection\<close>

lemma matching_facts:
  "\<exists>r. get_detections_from_different_sources_with_max_overlap to_xyxy d source predictions
           thr ca cons = Inr r \<and>
       distinct (source # map fst r) \<and>
       (\<forall>c\<in>set (detections_of_overlaps r). detection_id c \<notin> cons)"
proof -
  from max_overlap_char [of to_xyxy d source predictions thr ca cons] obtain r where r:
    "get_detections_from_different_sources_with_max_overlap to_xyxy d source predictions
       thr ca cons = Inr r"
    "distinct (map fst r)"
    "\<forall>s c v. (s, c, v) \<in> set r \<longrightarrow>
          s \<noteq> source \<and> s < length predictions \<and>
          (\<exists>i<length (predictions ! s).
             c = predictions ! s ! i \<and> v = iou_of to_xyxy d c \<and>
             eligible to_xyxy d thr ca cons c \<and>
             (\<forall>j<length (predictions ! s).
                eligible to_xyxy d thr ca cons (predictions ! s ! j) \<longrightarrow>
                iou_of to_xyxy d (predictions ! s ! j) \<le> v) \<and>
             (\<forall>j<i. eligible to_xyxy d thr ca cons (predictions ! s ! j) \<longrightarrow>
                iou_of to_xyxy d (predictions ! s ! j) < v))"
    by blast
  have "source \<notin> fst ` set r" using r(3) by force
  moreover have "\<forall>c\<in>set (detections_of_overlaps r). detection_id c \<notin> cons"
  proof
    fix c assume "c \<in> set (detections_of_overlaps r)"
    then obtain s v where "(s, c, v) \<in> set r"
      by (auto simp: detections_of_overlaps_def)
    with r(3) have "eligible to_xyxy d thr ca cons c" by blast
    then show "detection_id c \<notin> cons" by (simp add: eligible_def)
  qed
  ultimately show ?thesis using r(1) r(2) by auto
qed

lemma single_detection_cases:
  obtains
    (skipped) "detection_id d \<in> cons"
      "get_consensus_for_single_detection to_xyxy uuid d source predictions thr ca rv ct
         cmode bmode cons = Inr ([], cons)"
  | (too_few) r where "detection_id d \<notin> cons"
      "get_detections_from_different_sources_with_max_overlap to_xyxy d source predictions
         thr ca cons = Inr r"
      "int (length r) < rv - 1"
      "get_consensus_for_single_detection to_xyxy uuid d source predictions thr ca rv ct
         cmode bmode cons = Inr ([], cons)"
  | (low_confidence) r m where "detection_id d \<notin> cons"
      "get_detections_from_different_sources_with_max_overlap to_xyxy d source predictions
         thr ca cons = Inr r"
      "rv - 1 \<le> int (length r)"
      "merge_detections uuid (d # detections_of_overlaps r) cmode bmode = Inr m"
      "confidence m < ct"
      "get_consensus_for_single_detection to_xyxy uuid d source predictions thr ca rv ct
         cmode bmode cons = Inr ([], cons)"
  | (accepted) r m where "detection_id d \<notin> cons"
      "get_detections_from_different_sources_with_max_overlap to_xyxy d source predictions
         thr ca cons = Inr r"
      "rv - 1 \<le> int (length r)"
      "merge_detections uuid (d # detections_of_overlaps r) cmode bmode = Inr m"
      "ct \<le> confidence m"
      "get_consensus_for_single_detection to_xyxy uuid d source predictions thr ca rv ct
         cmode bmode cons =
         Inr ([m], cons \<union> {detection_id d} \<union> detection_id ` set (detections_of_overlaps r))"
proof -
  from matching_facts [of to_xyxy d source predictions thr ca cons] obtain r where r:
    "get_detections_from_different_sources_with_max_overlap to_xyxy d source predictions
       thr ca cons = Inr r" by blast
  from merge_detections_nonempty [of uuid d "detections_of_overlaps r" cmode bmode]
  obtain m where m: "merge_detections uuid (d # detections_of_overlaps r) cmode bmode = Inr m"
    by blast
  show thesis
  proof (cases "detection_id d \<in> cons")
    case True
    then show thesis
      by (intro skipped) (simp_all add: get_consensus_for_single_detection_def)
  next
    case unconsumed: False
    show thesis
    proof (cases "int (length r) < rv - 1")
      case True
      with unconsumed r show thesis
        by (intro too_few [of r]) (simp_all add: get_consensus_for_single_detection_def)
    next
      case enough: False
      show thesis
      proof (cases "confidence m < ct")
        case True
        with unconsumed enough r m show thesis
          by (intro low_confidence [of r m])
             (simp_all add: get_consensus_for_single_detection_def Let_def)
      next
        case False
        with unconsumed enough r m show thesis
          by (intro accepted [of r m])
             (simp_all add: get_consensus_for_single_detection_def Let_def)
      qed
    qed
  qed
qed

lemma consensus_loop_total:
  "\<exists>res. consensus_loop to_xyxy uuid4 predictions thr ca rv ct cmode bmode k es out cons
            = Inr res"
proof (induction es arbitrary: k out cons)
  case Nil
  show ?case by simp
next
  case (Cons e es)
  obtain s d where e: "e = (s, d)" by (cases e)
  obtain upd cons' where step:
    "get_consensus_for_single_detection to_xyxy (uuid4 k) d s predictions thr ca rv ct
       cmode bmode cons = Inr (upd, cons')"
    by (cases rule: single_detection_cases
          [of d cons to_xyxy "uuid4 k" s predictions thr ca rv ct cmode bmode]) blast+
  show ?case unfolding e using step Cons.IH [of "Suc k" "out @ upd" cons'] by simp
qed

section \<open>The required-votes check\<close>

lemma py_round_numeral: "py_round (numeral n) = numeral n"
  using py_round_int [of "numeral n"] by simp

lemma pair_example_matching:
  "get_detections_from_different_sources_with_max_overlap center_to_xyxy cat_a 0
     [[cat_a], [cat_b]] (3 / 10) True {} = Inr [(1, cat_b, 16 / 25)]"
  by (simp add: get_detections_from_different_sources_with_max_overlap_def
      enumerate_detections_def enumerate_eq_zip upt_rec calculate_iou_def center_to_xyxy_def
      get_detection_sizes_def py_truediv_def cat_a_def cat_b_def Let_def)

lemma pair_example_merge:
  "merge_detections ''m0'' [cat_a, cat_b] Mode_AVERAGE Mode_AVERAGE = Inr merged_cat"
  by (simp add: merge_detections_def get_majority_class_def Counter_def
      get_average_bounding_box_def aggregate_field_values_def statistics_mean_def
      cat_a_def cat_b_def merged_cat_def py_round_numeral)

lemma pair_example_consensus:
  "get_consensus_for_single_detection center_to_xyxy ''m0'' cat_a 0 [[cat_a], [cat_b]]
     (3 / 10) True 2 0 Mode_AVERAGE Mode_AVERAGE {} =
   Inr ([merged_cat], {''a1'', ''b1''})"
proof -
  have ids: "detection_id cat_a = ''a1''" "detection_id cat_b = ''b1''"
    by (simp_all add: cat_a_def cat_b_def)
  have conf: "\<not> confidence merged_cat < 0" by (simp add: merged_cat_def)
  show ?thesis
    by (simp add: get_consensus_for_single_detection_def pair_example_matching
        detections_of_overlaps_def pair_example_merge ids conf insert_commute)
qed

text \<open>
  C2. For a seed that is not yet consumed, with \<open>r\<close> the candidates matched from the other
  sources (one per source, none from the seed's source): when fewer than
  \<open>required_votes - 1\<close> sources matched, nothing is output and the consumption set is
  unchanged; when at least \<open>required_votes - 1\<close> matched, the group of the seed and the
  candidates is formed and merged (and output unless the confidence floor rejects it), and
  it has at least \<open>required_votes\<close> distinct contributing sources. With
  \<open>required_votes = 1\<close> the vote check always passes, also for the seed alone.
\<close>

theorem required_votes_check:
  "\<exists>r. get_detections_from_different_sources_with_max_overlap to_xyxy d source predictions
           thr ca cons = Inr r \<and>
       distinct (source # map fst r) \<and>
       (detection_id d \<notin> cons \<longrightarrow>
          (int (length r) < rv - 1 \<longrightarrow>
             get_consensus_for_single_detection to_xyxy uuid d source predictions thr ca rv ct
               cmode bmode cons = Inr ([], cons)) \<and>
          (rv - 1 \<le> int (length r) \<longrightarrow>
             (\<exists>m. merge_detections uuid (d # detections_of_overlaps r) cmode bmode = Inr m \<and>
                  get_consensus_for_single_detection to_xyxy uuid d source predictions thr ca rv
                    ct cmode bmode cons =
                  (if confidence m < ct then Inr ([], cons)
                   else Inr ([m], cons \<union> {detection_id d}
                                  \<union> detection_id ` set (detections_of_overlaps r)))) \<and>
             rv \<le> int (length (source # map fst r))) \<and>
          (rv = 1 \<longrightarrow> rv - 1 \<le> int (length r)))"
proof -
  from matching_facts [of to_xyxy d source predictions thr ca cons] obtain r where r:
    "get_detections_from_different_sources_with_max_overlap to_xyxy d source predictions
       thr ca cons = Inr r"
    "distinct (source # map fst r)" by blast
  have few: "get_consensus_for_single_detection to_xyxy uuid d source predictions thr ca rv ct
               cmode bmode cons = Inr ([], cons)"
    if "detection_id d \<notin> cons" "int (length r) < rv - 1"
    using that r(1)
    by (cases rule: single_detection_cases
          [of d cons to_xyxy uuid source predictions thr ca rv ct cmode bmode]) simp_all
  have enough: "\<exists>m. merge_detections uuid (d # detections_of_overlaps r) cmode bmode = Inr m \<and>
           get_consensus_for_single_detection to_xyxy uuid d source predictions thr ca rv
             ct cmode bmode cons =
           (if confidence m < ct then Inr ([], cons)
            else Inr ([m], cons \<union> {detection_id d}
                           \<union> detection_id ` set (detections_of_overlaps r)))"
    if "detection_id d \<notin> cons" "rv - 1 \<le> int (length r)"
    using that r(1)
    by (cases rule: single_detection_cases
          [of d cons to_xyxy uuid source predictions thr ca rv ct cmode bmode]) auto
  have count: "rv \<le> int (length (source # map fst r))" if "rv - 1 \<le> int (length r)"
    using that by simp
  from r few enough count show ?thesis by (intro exI [of _ r]) auto
qed

theorem required_votes_check_witness:
  "get_detections_from_different_sources_with_max_overlap center_to_xyxy cat_a 0
     [[cat_a], [cat_b]] (3 / 10) True {} = Inr [(1, cat_b, 16 / 25)] \<and>
   detection_id cat_a \<notin> ({} :: string set) \<and>
   (2::int) - 1 \<le> int (length [(1::nat, cat_b, 16 / 25 :: real)]) \<and>
   get_consensus_for_single_detection center_to_xyxy ''m0'' cat_a 0 [[cat_a], [cat_b]]
     (3 / 10) True 2 0 Mode_AVERAGE Mode_AVERAGE {} = Inr ([merged_cat], {''a1'', ''b1''}) \<and>
   get_consensus_for_single_detection center_to_xyxy ''m0'' cat_a 0 [[cat_a], [cat_b]]
     (3 / 10) True 3 0 Mode_AVERAGE Mode_AVERAGE {} = Inr ([], {})"
proof -
  note t = required_votes_check [of center_to_xyxy cat_a 0 "[[cat_a], [cat_b]]" "3 / 10" True
      "{}" 3 "''m0''" 0 Mode_AVERAGE Mode_AVERAGE]
  from t have few: "get_consensus_for_single_detection center_to_xyxy ''m0'' cat_a 0
      [[cat_a], [cat_b]] (3 / 10) True 3 0 Mode_AVERAGE Mode_AVERAGE {} = Inr ([], {})"
    by (simp add: pair_example_matching)
  with pair_example_matching pair_example_consensus show ?thesis by simp
qed

section \<open>The confidence floor\<close>

lemma single_detection_floor:
  assumes "get_consensus_for_single_detection to_xyxy uuid d source predictions thr ca rv ct
             cmode bmode cons = Inr (upd, cons')"
  shows "\<forall>m\<in>set upd. ct \<le> confidence m"
  using assms
  by (cases rule: single_detection_cases
        [of d cons to_xyxy uuid source predictions thr ca rv ct cmode bmode]) auto

lemma consensus_loop_floor:
  assumes "consensus_loop to_xyxy uuid4 predictions thr ca rv ct cmode bmode k es out cons
             = Inr (out', cons')"
    and "\<forall>m\<in>set out. ct \<le> confidence m"
  shows "\<forall>m\<in>set out'. ct \<le> confidence m"
  using assms
proof (induction es arbitrary: k out cons)
  case Nil
  then show ?case by simp
next
  case (Cons e es)
  obtain s d where e: "e = (s, d)" by (cases e)
  from Cons.prems(1) obtain upd cons1 where step:
    "get_consensus_for_single_detection to_xyxy (uuid4 k) d s predictions thr ca rv ct
       cmode bmode cons = Inr (upd, cons1)"
    and rest: "consensus_loop to_xyxy uuid4 predictions thr ca rv ct cmode bmode (Suc k) es
       (out @ upd) cons1 = Inr (out', cons')"
    unfolding e by (auto split: sum.splits)
  have "\<forall>m\<in>set (out @ upd). ct \<le> confidence m"
    using Cons.prems(2) single_detection_floor [OF step] by auto
  from Cons.IH [OF rest this] show ?case .
qed

text \<open>
  C3 (amended). When the merged detection of a group that passed the vote check has a
  confidence strictly below the threshold, the group is dropped: nothing is output and the
  consumption set is returned unchanged, so the members are not marked consumed. The loop
  over all seeds always returns, and every merged detection it outputs, hence every one in
  the result of the batch element, has a confidence of at least the threshold.
\<close>

theorem confidence_floor:
  "(detection_id d \<notin> cons \<and>
    get_detections_from_different_sources_with_max_overlap to_xyxy d source predictions
      thr ca cons = Inr r \<and>
    rv - 1 \<le> int (length r) \<and>
    merge_detections uuid (d # detections_of_overlaps r) cmode bmode = Inr m \<and>
    confidence m < ct \<longrightarrow>
    get_consensus_for_single_detection to_xyxy uuid d source predictions thr ca rv ct
      cmode bmode cons = Inr ([], cons)) \<and>
   (\<exists>out cons'.
      consensus_loop to_xyxy uuid4 predictions thr ca rv ct cmode bmode 0
        (enumerate_detections predictions None) [] {} = Inr (out, cons') \<and>
      (\<forall>m\<in>set out. ct \<le> confidence m)) \<and>
   (\<forall>pid object_present presence detections.
      resolve_batch_consensus to_xyxy uuid4 predictions rv ca thr ct classes required pmode
        cmode bmode = Inr (pid, object_present, presence, detections) \<longrightarrow>
      (\<forall>m\<in>set detections. ct \<le> confidence m))"
proof (intro conjI)
  show "detection_id d \<notin> cons \<and>
    get_detections_from_different_sources_with_max_overlap to_xyxy d source predictions
      thr ca cons = Inr r \<and>
    rv - 1 \<le> int (length r) \<and>
    merge_detections uuid (d # detections_of_overlaps r) cmode bmode = Inr m \<and>
    confidence m < ct \<longrightarrow>
    get_consensus_for_single_detection to_xyxy uuid d source predictions thr ca rv ct
      cmode bmode cons = Inr ([], cons)"
    by (simp add: get_consensus_for_single_detection_def)
next
  from consensus_loop_total [of to_xyxy uuid4 predictions thr ca rv ct cmode bmode 0
      "enumerate_detections predictions None" "[]" "{}"]
  obtain out cons' where run:
    "consensus_loop to_xyxy uuid4 predictions thr ca rv ct cmode bmode 0
       (enumerate_detections predictions None) [] {} = Inr (out, cons')" by force
  from consensus_loop_floor [OF run] have "\<forall>m\<in>set out. ct \<le> confidence m" by simp
  with run show "\<exists>out cons'.
      consensus_loop to_xyxy uuid4 predictions thr ca rv ct cmode bmode 0
        (enumerate_detections predictions None) [] {} = Inr (out, cons') \<and>
      (\<forall>m\<in>set out. ct \<le> confidence m)" by blast
next
  show "\<forall>pid object_present presence detections.
      resolve_batch_consensus to_xyxy uuid4 predictions rv ca thr ct classes required pmode
        cmode bmode = Inr (pid, object_present, presence, detections) \<longrightarrow>
      (\<forall>m\<in>set detections. ct \<le> confidence m)"
  proof (intro allI impI)
    fix pid object_present presence detections
    assume res: "resolve_batch_consensus to_xyxy uuid4 predictions rv ca thr ct classes required
        pmode cmode bmode = Inr (pid, object_present, presence, detections)"
    show "\<forall>m\<in>set detections. ct \<le> confidence m"
    proof (cases "does_not_detected_objects_in_any_source predictions")
      case True
      with res show ?thesis by (simp add: resolve_batch_consensus_def)
    next
      case False
      let ?f = "filter_predictions predictions classes"
      from res False obtain cons' where run:
        "consensus_loop to_xyxy uuid4 ?f thr ca rv ct cmode bmode 0
           (enumerate_detections ?f None) [] {} = Inr (detections, cons')"
        by (auto simp: resolve_batch_consensus_def Let_def split: sum.splits)
      from consensus_loop_floor [OF run] show ?thesis by simp
    qed
  qed
qed

lemma low_confidence_example_consensus:
  "get_consensus_for_single_detection center_to_xyxy ''m0'' cat_a 0 [[cat_a], [cat_b]]
     (3 / 10) True 2 (19 / 20) Mode_AVERAGE Mode_AVERAGE {} = Inr ([], {})"
  by (simp add: get_consensus_for_single_detection_def pair_example_matching
      detections_of_overlaps_def pair_example_merge merged_cat_def)

theorem confidence_floor_witness:
  "detection_id cat_a \<notin> ({} :: string set) \<and>
   get_detections_from_different_sources_with_max_overlap center_to_xyxy cat_a 0
     [[cat_a], [cat_b]] (3 / 10) True {} = Inr [(1, cat_b, 16 / 25)] \<and>
   (2::int) - 1 \<le> int (length [(1::nat, cat_b, 16 / 25 :: real)]) \<and>
   merge_detections ''m0'' (cat_a # detections_of_overlaps [(1, cat_b, 16 / 25)])
     Mode_AVERAGE Mode_AVERAGE = Inr merged_cat \<and>
   confidence merged_cat < 19 / 20 \<and>
   get_consensus_for_single_detection center_to_xyxy ''m0'' cat_a 0 [[cat_a], [cat_b]]
     (3 / 10) True 2 (19 / 20) Mode_AVERAGE Mode_AVERAGE {} = Inr ([], {})"
  using confidence_floor [of cat_a "{}" center_to_xyxy 0 "[[cat_a], [cat_b]]" "3 / 10" True
      "[(1, cat_b, 16 / 25)]" 2 "''m0''" Mode_AVERAGE Mode_AVERAGE merged_cat "19 / 20"]
  by (simp add: pair_example_matching detections_of_overlaps_def pair_example_merge
      merged_cat_def)

text \<open>
  C3 as stated fails: the group of \<open>cat_a\<close> and \<open>cat_b\<close> passes the vote check and is
  dropped by the confidence floor, and the consumption set returned is still empty; it is
  not the set holding the identifiers of the two members.
\<close>

theorem dropped_group_not_consumed_counterexample:
  "confidence merged_cat < 19 / 20 \<and>
   get_consensus_for_single_detection center_to_xyxy ''m0'' cat_a 0 [[cat_a], [cat_b]]
     (3 / 10) True 2 (19 / 20) Mode_AVERAGE Mode_AVERAGE {} = Inr ([], {}) \<and>
   get_consensus_for_single_detection center_to_xyxy ''m0'' cat_a 0 [[cat_a], [cat_b]]
     (3 / 10) True 2 (19 / 20) Mode_AVERAGE Mode_AVERAGE {} \<noteq>
     Inr ([], {detection_id cat_a, detection_id cat_b})"
  by (simp add: low_confidence_example_consensus merged_cat_def)

section \<open>At-most-once consumption\<close>

lemma groups_disjoint_nth:
  "groups_disjoint gs \<Longrightarrow> i < j \<Longrightarrow> j < length gs \<Longrightarrow> gs ! i \<inter> gs ! j = {}"
proof (induction gs arbitrary: i j)
  case Nil
  then show ?case by simp
next
  case (Cons g gs)
  from Cons.prems(2) obtain j' where j: "j = Suc j'" by (cases j) auto
  show ?case
  proof (cases i)
    case 0
    have "gs ! j' \<in> set gs" using Cons.prems(3) j by simp
    with Cons.prems(1) show ?thesis using 0 j by simp
  next
    case (Suc i')
    with Cons.prems j have "groups_disjoint gs" "i' < j'" "j' < length gs" by simp_all
    from Cons.IH [OF this] show ?thesis using Suc j by simp
  qed
qed

lemma single_detection_lineage:
  assumes "get_consensus_for_single_detection to_xyxy uuid d source predictions thr ca rv ct
             cmode bmode cons = Inr (upd, cons1)"
  shows "(upd = [] \<and> cons1 = cons) \<or>
         (\<exists>m r. upd = [m] \<and> detection_id d \<notin> cons \<and>
            get_detections_from_different_sources_with_max_overlap to_xyxy d source predictions
              thr ca cons = Inr r \<and>
            merge_detections uuid (d # detections_of_overlaps r) cmode bmode = Inr m \<and>
            cons1 = cons \<union> detection_id ` set (d # detections_of_overlaps r) \<and>
            detection_id ` set (d # detections_of_overlaps r) \<inter> cons = {})"
proof (cases rule: single_detection_cases
        [of d cons to_xyxy uuid source predictions thr ca rv ct cmode bmode])
  case skipped
  with assms show ?thesis by simp
next
  case (too_few r)
  with assms show ?thesis by simp
next
  case (low_confidence r m)
  with assms show ?thesis by simp
next
  case (accepted r m)
  from matching_facts [of to_xyxy d source predictions thr ca cons] accepted(2)
  have fresh: "\<forall>c\<in>set (detections_of_overlaps r). detection_id c \<notin> cons" by simp
  have "detection_id ` set (d # detections_of_overlaps r) \<inter> cons = {}"
    using accepted(1) fresh by auto
  moreover have "cons1 = cons \<union> detection_id ` set (d # detections_of_overlaps r)"
    using assms accepted(6) by auto
  moreover have "upd = [m]" using assms accepted(6) by simp
  ultimately show ?thesis using accepted(1,2,4) by blast
qed

lemma consensus_loop_lineage:
  assumes "consensus_loop to_xyxy uuid4 predictions thr ca rv ct cmode bmode k es out cons
             = Inr (out', cons')"
  defines "L \<equiv> consensus_lineage to_xyxy uuid4 predictions thr ca rv ct cmode bmode k es cons"
  shows "out' = out @ map fst L \<and>
         cons' = cons \<union> \<Union> (lineage_ids ` set L) \<and>
         (\<forall>entry\<in>set L. lineage_ids entry \<inter> cons = {}) \<and>
         groups_disjoint (map lineage_ids L) \<and>
         (\<forall>entry\<in>set L. \<exists>uuid. merge_detections uuid (snd entry) cmode bmode = Inr (fst entry))"
  using assms(1) unfolding L_def
proof (induction es arbitrary: k out cons)
  case Nil
  then show ?case by simp
next
  case (Cons e es)
  obtain s d where e: "e = (s, d)" by (cases e)
  from Cons.prems obtain upd cons1 where step:
    "get_consensus_for_single_detection to_xyxy (uuid4 k) d s predictions thr ca rv ct
       cmode bmode cons = Inr (upd, cons1)"
    and rest: "consensus_loop to_xyxy uuid4 predictions thr ca rv ct cmode bmode (Suc k) es
       (out @ upd) cons1 = Inr (out', cons')"
    unfolding e by (auto split: sum.splits)
  let ?R = "consensus_lineage to_xyxy uuid4 predictions thr ca rv ct cmode bmode (Suc k) es cons1"
  from Cons.IH [OF rest] have ih:
    "out' = (out @ upd) @ map fst ?R"
    "cons' = cons1 \<union> \<Union> (lineage_ids ` set ?R)"
    "\<forall>entry\<in>set ?R. lineage_ids entry \<inter> cons1 = {}"
    "groups_disjoint (map lineage_ids ?R)"
    "\<forall>entry\<in>set ?R. \<exists>uuid. merge_detections uuid (snd entry) cmode bmode = Inr (fst entry)"
    by simp_all
  from single_detection_lineage [OF step] show ?case
  proof
    assume none: "upd = [] \<and> cons1 = cons"
    have L: "consensus_lineage to_xyxy uuid4 predictions thr ca rv ct cmode bmode k
               ((s, d) # es) cons = ?R"
      using step none by simp
    show ?thesis unfolding e L using ih none by simp
  next
    assume "\<exists>m r. upd = [m] \<and> detection_id d \<notin> cons \<and>
            get_detections_from_different_sources_with_max_overlap to_xyxy d s predictions
              thr ca cons = Inr r \<and>
            merge_detections (uuid4 k) (d # detections_of_overlaps r) cmode bmode = Inr m \<and>
            cons1 = cons \<union> detection_id ` set (d # detections_of_overlaps r) \<and>
            detection_id ` set (d # detections_of_overlaps r) \<inter> cons = {}"
    then obtain m r where acc: "upd = [m]"
      "get_detections_from_different_sources_with_max_overlap to_xyxy d s predictions
         thr ca cons = Inr r"
      "merge_detections (uuid4 k) (d # detections_of_overlaps r) cmode bmode = Inr m"
      "cons1 = cons \<union> detection_id ` set (d # detections_of_overlaps r)"
      "detection_id ` set (d # detections_of_overlaps r) \<inter> cons = {}" by blast
    let ?g = "d # detections_of_overlaps r"
    have L: "consensus_lineage to_xyxy uuid4 predictions thr ca rv ct cmode bmode k
               ((s, d) # es) cons = (m, ?g) # ?R"
      using step acc(1) acc(2) by simp
    have gid: "lineage_ids (m, ?g) = detection_id ` set ?g" by (simp add: lineage_ids_def)
    have later: "\<forall>entry\<in>set ?R. lineage_ids (m, ?g) \<inter> lineage_ids entry = {}"
      using ih(3) acc(4) gid by blast
    have "out' = out @ map fst ((m, ?g) # ?R)" using ih(1) acc(1) by simp
    moreover have "cons' = cons \<union> \<Union> (lineage_ids ` set ((m, ?g) # ?R))"
      using ih(2) acc(4) gid by auto
    moreover have "\<forall>entry\<in>set ((m, ?g) # ?R). lineage_ids entry \<inter> cons = {}"
      using ih(3) acc(4) acc(5) gid by auto
    moreover have "groups_disjoint (map lineage_ids ((m, ?g) # ?R))"
      using ih(4) later by simp
    moreover have "\<forall>entry\<in>set ((m, ?g) # ?R).
        \<exists>uuid. merge_detections uuid (snd entry) cmode bmode = Inr (fst entry)"
      using ih(5) acc(3) by auto
    ultimately show ?thesis unfolding e L by blast
  qed
qed

lemma example_ids:
  "detection_id cat_a = ''a1''" "detection_id cat_b = ''b1''" "detection_id far_b = ''b3''"
  by (simp_all add: cat_a_def cat_b_def far_b_def)

lemma two_groups_enumerate:
  "enumerate_detections two_groups None = [(0, cat_a), (Suc 0, cat_b), (Suc 0, far_b)]"
  "enumerate_detections two_groups (Some 0) = [(Suc 0, cat_b), (Suc 0, far_b)]"
  "enumerate_detections two_groups (Some (Suc 0)) = [(0, cat_a)]"
  by (simp_all add: two_groups_def enumerate_detections_def enumerate_eq_zip upt_rec)

lemma two_groups_matching_cat:
  "get_detections_from_different_sources_with_max_overlap center_to_xyxy cat_a 0
     two_groups (3 / 10) True {} = Inr [(Suc 0, cat_b, 16 / 25)]"
  unfolding get_detections_from_different_sources_with_max_overlap_def two_groups_enumerate
  by (simp add: calculate_iou_def center_to_xyxy_def
      get_detection_sizes_def py_truediv_def cat_a_def cat_b_def far_b_def Let_def)

lemma two_groups_matching_dog:
  "get_detections_from_different_sources_with_max_overlap center_to_xyxy far_b (Suc 0)
     two_groups (3 / 10) True {''b1'', ''a1''} = Inr []"
  unfolding get_detections_from_different_sources_with_max_overlap_def two_groups_enumerate
  by (simp add: example_ids)

lemma two_groups_merge_dog:
  "merge_detections ''m2'' [far_b] Mode_AVERAGE Mode_AVERAGE = Inr merged_dog"
  by (simp add: merge_detections_def get_majority_class_def Counter_def
      get_average_bounding_box_def aggregate_field_values_def statistics_mean_def
      far_b_def merged_dog_def py_round_numeral)

lemma two_groups_steps:
  "get_consensus_for_single_detection center_to_xyxy ''m0'' cat_a 0 two_groups
     (3 / 10) True 1 0 Mode_AVERAGE Mode_AVERAGE {} = Inr ([merged_cat], {''b1'', ''a1''})"
  "get_consensus_for_single_detection center_to_xyxy ''m1'' cat_b (Suc 0) two_groups
     (3 / 10) True 1 0 Mode_AVERAGE Mode_AVERAGE {''b1'', ''a1''} = Inr ([], {''b1'', ''a1''})"
  "get_consensus_for_single_detection center_to_xyxy ''m2'' far_b (Suc 0) two_groups
     (3 / 10) True 1 0 Mode_AVERAGE Mode_AVERAGE {''b1'', ''a1''} =
     Inr ([merged_dog], {''b3'', ''b1'', ''a1''})"
proof -
  have conf: "\<not> confidence merged_cat < 0" "\<not> confidence merged_dog < 0"
    by (simp_all add: merged_cat_def merged_dog_def)
  show "get_consensus_for_single_detection center_to_xyxy ''m0'' cat_a 0 two_groups
     (3 / 10) True 1 0 Mode_AVERAGE Mode_AVERAGE {} = Inr ([merged_cat], {''b1'', ''a1''})"
    by (simp add: get_consensus_for_single_detection_def two_groups_matching_cat
        detections_of_overlaps_def pair_example_merge example_ids conf)
  show "get_consensus_for_single_detection center_to_xyxy ''m1'' cat_b (Suc 0) two_groups
     (3 / 10) True 1 0 Mode_AVERAGE Mode_AVERAGE {''b1'', ''a1''} = Inr ([], {''b1'', ''a1''})"
    by (simp add: get_consensus_for_single_detection_def example_ids)
  show "get_consensus_for_single_detection center_to_xyxy ''m2'' far_b (Suc 0) two_groups
     (3 / 10) True 1 0 Mode_AVERAGE Mode_AVERAGE {''b1'', ''a1''} =
     Inr ([merged_dog], {''b3'', ''b1'', ''a1''})"
    by (simp add: get_consensus_for_single_detection_def two_groups_matching_dog
        detections_of_overlaps_def two_groups_merge_dog example_ids conf)
qed

lemma example_uuid4_values:
  "example_uuid4 0 = ''m0''" "example_uuid4 (Suc 0) = ''m1''"
  "example_uuid4 (Suc (Suc 0)) = ''m2''"
  by (simp_all add: example_uuid4_def)

lemma two_groups_loop:
  "consensus_loop center_to_xyxy example_uuid4 two_groups (3 / 10) True 1 0
     Mode_AVERAGE Mode_AVERAGE 0 (enumerate_detections two_groups None) [] {} =
   Inr ([merged_cat, merged_dog], {''b3'', ''b1'', ''a1''})"
  unfolding two_groups_enumerate
  by (simp add: example_uuid4_values two_groups_steps)

lemma two_groups_lineage:
  "consensus_lineage center_to_xyxy example_uuid4 two_groups (3 / 10) True 1 0
     Mode_AVERAGE Mode_AVERAGE 0 (enumerate_detections two_groups None) {} =
   [(merged_cat, [cat_a, cat_b]), (merged_dog, [far_b])]"
  unfolding two_groups_enumerate
  by (simp add: example_uuid4_values two_groups_steps two_groups_matching_cat
      two_groups_matching_dog detections_of_overlaps_def)

text \<open>
  C4. A seed whose identifier is in the consumption set is skipped, leaving the set as it
  is; no matched candidate has its identifier in the set; when a merged detection is
  output, the set grows by exactly the identifiers of the seed and of the matched
  candidates. For the whole batch element, with \<open>L\<close> the merged detections output in
  order, each with the group it was merged from: the loop returns exactly these merged
  detections, the final consumption set is the union of the groups' identifiers, and no
  identifier occurs in the groups of two different outputs.
\<close>

theorem at_most_once_consumption:
  fixes predictions :: "detection list list" and to_xyxy :: xyxy_fun
    and uuid4 :: "nat \<Rightarrow> string" and thr ct :: real and ca :: bool and rv :: int
    and cmode bmode :: AggregationMode
  defines "L \<equiv> consensus_lineage to_xyxy uuid4 predictions thr ca rv ct cmode bmode 0
                  (enumerate_detections predictions None) {}"
  shows
  "(detection_id d \<in> cons \<longrightarrow>
      get_consensus_for_single_detection to_xyxy uuid d source predictions thr ca rv ct
        cmode bmode cons = Inr ([], cons)) \<and>
   (\<exists>r. get_detections_from_different_sources_with_max_overlap to_xyxy d source predictions
           thr ca cons = Inr r \<and>
        (\<forall>c\<in>set (detections_of_overlaps r). detection_id c \<notin> cons) \<and>
        (\<forall>m cons1.
           get_consensus_for_single_detection to_xyxy uuid d source predictions thr ca rv ct
             cmode bmode cons = Inr ([m], cons1) \<longrightarrow>
           detection_id d \<notin> cons \<and>
           cons1 = cons \<union> detection_id ` set (d # detections_of_overlaps r))) \<and>
   (\<exists>out cons'.
      consensus_loop to_xyxy uuid4 predictions thr ca rv ct cmode bmode 0
        (enumerate_detections predictions None) [] {} = Inr (out, cons') \<and>
      out = map fst L \<and>
      cons' = \<Union> (lineage_ids ` set L) \<and>
      (\<forall>entry\<in>set L.
         \<exists>uuid. merge_detections uuid (snd entry) cmode bmode = Inr (fst entry)) \<and>
      (\<forall>i j. i < j \<and> j < length L \<longrightarrow> lineage_ids (L ! i) \<inter> lineage_ids (L ! j) = {}))"
proof (intro conjI)
  show "detection_id d \<in> cons \<longrightarrow>
      get_consensus_for_single_detection to_xyxy uuid d source predictions thr ca rv ct
        cmode bmode cons = Inr ([], cons)"
    by (simp add: get_consensus_for_single_detection_def)
next
  from matching_facts [of to_xyxy d source predictions thr ca cons] obtain r where r:
    "get_detections_from_different_sources_with_max_overlap to_xyxy d source predictions
       thr ca cons = Inr r"
    "\<forall>c\<in>set (detections_of_overlaps r). detection_id c \<notin> cons" by blast
  have "\<forall>m cons1.
           get_consensus_for_single_detection to_xyxy uuid d source predictions thr ca rv ct
             cmode bmode cons = Inr ([m], cons1) \<longrightarrow>
           detection_id d \<notin> cons \<and>
           cons1 = cons \<union> detection_id ` set (d # detections_of_overlaps r)"
  proof (intro allI impI)
    fix m cons1
    assume "get_consensus_for_single_detection to_xyxy uuid d source predictions thr ca rv ct
             cmode bmode cons = Inr ([m], cons1)"
    from single_detection_lineage [OF this] r(1)
    show "detection_id d \<notin> cons \<and>
           cons1 = cons \<union> detection_id ` set (d # detections_of_overlaps r)" by auto
  qed
  with r show "\<exists>r. get_detections_from_different_sources_with_max_overlap to_xyxy d source
           predictions thr ca cons = Inr r \<and>
        (\<forall>c\<in>set (detections_of_overlaps r). detection_id c \<notin> cons) \<and>
        (\<forall>m cons1.
           get_consensus_for_single_detection to_xyxy uuid d source predictions thr ca rv ct
             cmode bmode cons = Inr ([m], cons1) \<longrightarrow>
           detection_id d \<notin> cons \<and>
           cons1 = cons \<union> detection_id ` set (d # detections_of_overlaps r))" by blast
next
  from consensus_loop_total [of to_xyxy uuid4 predictions thr ca rv ct cmode bmode 0
      "enumerate_detections predictions None" "[]" "{}"]
  obtain out cons' where run:
    "consensus_loop to_xyxy uuid4 predictions thr ca rv ct cmode bmode 0
       (enumerate_detections predictions None) [] {} = Inr (out, cons')" by force
  from consensus_loop_lineage [OF run] have inv:
    "out = map fst L" "cons' = \<Union> (lineage_ids ` set L)"
    "groups_disjoint (map lineage_ids L)"
    "\<forall>entry\<in>set L. \<exists>uuid. merge_detections uuid (snd entry) cmode bmode = Inr (fst entry)"
    unfolding L_def by simp_all
  have "\<forall>i j. i < j \<and> j < length L \<longrightarrow> lineage_ids (L ! i) \<inter> lineage_ids (L ! j) = {}"
  proof (intro allI impI)
    fix i j assume ij: "i < j \<and> j < length L"
    then have "map lineage_ids L ! i \<inter> map lineage_ids L ! j = {}"
      using groups_disjoint_nth [OF inv(3), of i j] by simp
    with ij show "lineage_ids (L ! i) \<inter> lineage_ids (L ! j) = {}" by simp
  qed
  with run inv show "\<exists>out cons'.
      consensus_loop to_xyxy uuid4 predictions thr ca rv ct cmode bmode 0
        (enumerate_detections predictions None) [] {} = Inr (out, cons') \<and>
      out = map fst L \<and>
      cons' = \<Union> (lineage_ids ` set L) \<and>
      (\<forall>entry\<in>set L.
         \<exists>uuid. merge_detections uuid (snd entry) cmode bmode = Inr (fst entry)) \<and>
      (\<forall>i j. i < j \<and> j < length L \<longrightarrow> lineage_ids (L ! i) \<inter> lineage_ids (L ! j) = {})"
    by blast
qed

theorem at_most_once_consumption_witness:
  "detection_id cat_b \<in> {''b1'', ''a1''} \<and>
   get_consensus_for_single_detection center_to_xyxy ''m1'' cat_b 1 two_groups
     (3 / 10) True 1 0 Mode_AVERAGE Mode_AVERAGE {''b1'', ''a1''} = Inr ([], {''b1'', ''a1''}) \<and>
   consensus_loop center_to_xyxy example_uuid4 two_groups (3 / 10) True 1 0
     Mode_AVERAGE Mode_AVERAGE 0 (enumerate_detections two_groups None) [] {} =
     Inr ([merged_cat, merged_dog], {''b3'', ''b1'', ''a1''}) \<and>
   consensus_lineage center_to_xyxy example_uuid4 two_groups (3 / 10) True 1 0
     Mode_AVERAGE Mode_AVERAGE 0 (enumerate_detections two_groups None) {} =
     [(merged_cat, [cat_a, cat_b]), (merged_dog, [far_b])] \<and>
   lineage_ids (merged_cat, [cat_a, cat_b]) \<inter> lineage_ids (merged_dog, [far_b]) = {}"
proof -
  note t = at_most_once_consumption [where d = cat_b and cons = "{''b1'', ''a1''}"
      and to_xyxy = center_to_xyxy and uuid = "''m1''" and source = 1
      and predictions = two_groups and thr = "3 / 10" and ca = True and rv = 1 and ct = 0
      and cmode = Mode_AVERAGE and bmode = Mode_AVERAGE and ?uuid4.0 = example_uuid4]
  from t have skip: "get_consensus_for_single_detection center_to_xyxy ''m1'' cat_b 1 two_groups
     (3 / 10) True 1 0 Mode_AVERAGE Mode_AVERAGE {''b1'', ''a1''} = Inr ([], {''b1'', ''a1''})"
    by (simp add: example_ids)
  from t have "\<forall>i j. i < j \<and> j < length [(merged_cat, [cat_a, cat_b]), (merged_dog, [far_b])] \<longrightarrow>
      lineage_ids ([(merged_cat, [cat_a, cat_b]), (merged_dog, [far_b])] ! i) \<inter>
      lineage_ids ([(merged_cat, [cat_a, cat_b]), (merged_dog, [far_b])] ! j) = {}"
    unfolding two_groups_lineage by blast
  from this [rule_format, of 0 1]
  have apart: "lineage_ids (merged_cat, [cat_a, cat_b]) \<inter> lineage_ids (merged_dog, [far_b]) = {}"
    by simp
  from skip apart two_groups_loop two_groups_lineage show ?thesis
    by (simp add: example_ids)
qed

section \<open>Presence of objects in the consensus\<close>

lemma aggregator_value:
  assumes "vs \<noteq> []"
  shows "AGGREGATION_MODE2FIELD_AGGREGATOR mode vs = Inr (aggregate_of mode vs)"
proof (cases mode)
  case Mode_AVERAGE
  with assms show ?thesis by (simp add: statistics_mean_def aggregate_of_def)
next
  case Mode_MAX
  from py_max_nonempty [OF assms] obtain m where m:
    "py_max vs = Inr m" "m \<in> set vs" "\<forall>x\<in>set vs. x \<le> m" by blast
  have "Max (set vs) = m" using m(2) m(3) by (intro Max_eqI) auto
  with m(1) Mode_MAX show ?thesis by (simp add: aggregate_of_def)
next
  case Mode_MIN
  from py_min_nonempty [OF assms] obtain m where m:
    "py_min vs = Inr m" "m \<in> set vs" "\<forall>x\<in>set vs. m \<le> x" by blast
  have "Min (set vs) = m" using m(2) m(3) by (intro Min_eqI) auto
  with m(1) Mode_MIN show ?thesis by (simp add: aggregate_of_def)
qed

lemma aggregate_field_values_value:
  "ds \<noteq> [] \<Longrightarrow>
   aggregate_field_values ds field mode = Inr (aggregate_of mode (map field ds))"
  by (simp add: aggregate_field_values_def aggregator_value)

lemma class2detections_append_lookup:
  "map_of (class2detections_append acc d) =
     (map_of acc)(class_name d \<mapsto>
        (case map_of acc (class_name d) of None \<Rightarrow> [d] | Some ds \<Rightarrow> ds @ [d]))"
  by (induction acc d rule: class2detections_append.induct) auto

lemma class2detections_fold_lookup:
  "map_of (foldl class2detections_append acc ds) c =
     (case map_of acc c of
        None \<Rightarrow> if of_class c ds = [] then None else Some (of_class c ds)
      | Some l \<Rightarrow> Some (l @ of_class c ds))"
proof (induction ds arbitrary: acc)
  case Nil
  show ?case by (simp add: of_class_def split: option.splits)
next
  case (Cons d ds)
  show ?case
    unfolding foldl_Cons Cons.IH class2detections_append_lookup
    by (simp add: of_class_def split: option.splits)
qed

lemma class2detections_lookup:
  "map_of (foldl class2detections_append [] ds) c =
     (if of_class c ds = [] then None else Some (of_class c ds))"
  by (simp add: class2detections_fold_lookup)

lemma class2detections_nonempty:
  assumes "(c, l) \<in> set (foldl class2detections_append [] ds)"
  shows "l \<noteq> []"
proof -
  have step: "\<And>acc d. \<forall>e\<in>set acc. snd e \<noteq> [] \<Longrightarrow>
                 \<forall>e\<in>set (class2detections_append acc d). snd e \<noteq> []"
  proof -
    fix acc :: "(string \<times> detection list) list" and d
    show "\<forall>e\<in>set acc. snd e \<noteq> [] \<Longrightarrow> \<forall>e\<in>set (class2detections_append acc d). snd e \<noteq> []"
      by (induction acc d rule: class2detections_append.induct) auto
  qed
  have "\<And>acc. \<forall>e\<in>set acc. snd e \<noteq> [] \<Longrightarrow>
           \<forall>e\<in>set (foldl class2detections_append acc ds). snd e \<noteq> []"
  proof (induction ds)
    case Nil
    then show ?case by simp
  next
    case (Cons d ds)
    from Cons.IH [OF step [OF Cons.prems]] show ?case by simp
  qed
  from this [of "[]"] assms show ?thesis by auto
qed

lemma check_required_classes_positive:
  assumes "list_all (\<lambda>e. 0 < snd e) m"
  shows "check_required_classes m c2d =
           (if \<exists>e\<in>set m. int (length (case map_of c2d (fst e) of None \<Rightarrow> [] | Some l \<Rightarrow> l))
                              < snd e
            then None else Some c2d)"
  using assms
proof (induction m arbitrary: c2d)
  case Nil
  show ?case by simp
next
  case (Cons e m)
  obtain k n where e: "e = (k, n)" by (cases e)
  from Cons.prems have pos: "0 < n" and rest: "list_all (\<lambda>e. 0 < snd e) m"
    by (simp_all add: e)
  show ?case
  proof (cases "map_of c2d k")
    case None
    then show ?thesis using pos by (simp add: e defaultdict_read_def)
  next
    case (Some l)
    then show ?thesis using Cons.IH [OF rest, of c2d] by (simp add: e defaultdict_read_def)
  qed
qed

lemma class2confidence_of_lookup:
  assumes "\<forall>e\<in>set c2d. snd e \<noteq> []"
  shows "\<exists>pc. class2confidence_of mode c2d = Inr pc \<and>
           (\<forall>c. map_of pc c =
              (case map_of c2d c of
                 None \<Rightarrow> None
               | Some l \<Rightarrow> Some (aggregate_of mode (map confidence l))))"
  using assms
proof (induction c2d)
  case Nil
  show ?case by simp
next
  case (Cons e c2d)
  obtain k l where e: "e = (k, l)" by (cases e)
  from Cons.prems have l: "l \<noteq> []" and rest: "\<forall>e\<in>set c2d. snd e \<noteq> []" by (simp_all add: e)
  from Cons.IH [OF rest] obtain pc where pc: "class2confidence_of mode c2d = Inr pc"
    "\<forall>c. map_of pc c =
       (case map_of c2d c of None \<Rightarrow> None | Some l \<Rightarrow> Some (aggregate_of mode (map confidence l)))"
    by blast
  have "class2confidence_of mode (e # c2d) =
          Inr ((k, aggregate_of mode (map confidence l)) # pc)"
    by (simp add: e aggregate_field_values_value [OF l] pc(1))
  moreover have "\<forall>c. map_of ((k, aggregate_of mode (map confidence l)) # pc) c =
       (case map_of (e # c2d) c of
          None \<Rightarrow> None | Some l \<Rightarrow> Some (aggregate_of mode (map confidence l)))"
    using pc(2) by (simp add: e)
  ultimately show ?case by blast
qed

lemma class2detections_read:
  "(case map_of (foldl class2detections_append [] ds) c of None \<Rightarrow> [] | Some l \<Rightarrow> l)
     = of_class c ds"
  by (simp add: class2detections_lookup)

lemma presence_class_aware_mapping:
  assumes "ds \<noteq> []" "list_all (\<lambda>e. 0 < snd e) m"
  shows "check_objects_presence_in_consensus_predictions ds True mode (Required_Dict m) =
           (if \<exists>e\<in>set m. int (length (of_class (fst e) ds)) < snd e
            then Inr (False, [])
            else (case class2confidence_of mode (foldl class2detections_append [] ds) of
                    Inl e \<Rightarrow> Inl e
                  | Inr class2confidence \<Rightarrow> Inr (True, class2confidence)))"
  using assms(1)
  by (simp add: check_objects_presence_in_consensus_predictions_def Let_def
      check_required_classes_positive [OF assms(2)] class2detections_read)

lemma class2confidence_of_groups:
  "\<exists>pc. class2confidence_of mode (foldl class2detections_append [] ds) = Inr pc \<and>
        (\<forall>c. map_of pc c =
           (if of_class c ds = [] then None
            else Some (aggregate_of mode (map confidence (of_class c ds)))))"
proof -
  have ne: "\<forall>e\<in>set (foldl class2detections_append [] ds). snd e \<noteq> []"
    using class2detections_nonempty [of _ _ ds] by auto
  from class2confidence_of_lookup [OF ne, of mode] obtain pc where pc:
    "class2confidence_of mode (foldl class2detections_append [] ds) = Inr pc"
    "\<forall>c. map_of pc c =
       (case map_of (foldl class2detections_append [] ds) c of
          None \<Rightarrow> None | Some l \<Rightarrow> Some (aggregate_of mode (map confidence l)))"
    by blast
  from pc(2) have "\<forall>c. map_of pc c =
           (if of_class c ds = [] then None
            else Some (aggregate_of mode (map confidence (of_class c ds))))"
    by (simp add: class2detections_lookup)
  with pc(1) show ?thesis by blast
qed


lemma presence_none:
  "check_objects_presence_in_consensus_predictions [] ca mode required = Inr (False, [])"
  by (simp add: check_objects_presence_in_consensus_predictions_def)

lemma defaultdict_read_same:
  assumes "defaultdict_read c2d k = (l, c2d')"
  shows "l = (case map_of c2d k of None \<Rightarrow> [] | Some ds \<Rightarrow> ds)"
    and "(case map_of c2d' k' of None \<Rightarrow> [] | Some ds \<Rightarrow> ds) =
         (case map_of c2d k' of None \<Rightarrow> [] | Some ds \<Rightarrow> ds)"
  using assms
  by (auto simp: defaultdict_read_def map_of_append split: option.splits if_splits)

lemma check_required_classes_shortfall:
  assumes "\<exists>e\<in>set m. int (length (case map_of c2d (fst e) of None \<Rightarrow> [] | Some l \<Rightarrow> l))
                        < snd e"
  shows "check_required_classes m c2d = None"
  using assms
proof (induction m arbitrary: c2d)
  case Nil
  then show ?case by simp
next
  case (Cons e m)
  obtain k n where e: "e = (k, n)" by (cases e)
  obtain l c2d' where rd: "defaultdict_read c2d k = (l, c2d')"
    by (cases "defaultdict_read c2d k")
  note same = defaultdict_read_same [OF rd]
  show ?case
  proof (cases "int (length l) < n")
    case True
    then show ?thesis by (simp add: e rd)
  next
    case False
    with Cons.prems same(1) have
      "\<exists>e\<in>set m. int (length (case map_of c2d (fst e) of None \<Rightarrow> [] | Some l \<Rightarrow> l)) < snd e"
      by (auto simp: e)
    then have
      "\<exists>e\<in>set m. int (length (case map_of c2d' (fst e) of None \<Rightarrow> [] | Some l \<Rightarrow> l)) < snd e"
      by (simp only: same(2))
    from Cons.IH [OF this] False show ?thesis by (simp add: e rd)
  qed
qed

lemma presence_shortfall:
  assumes "\<exists>e\<in>set m. int (length (of_class (fst e) ds)) < snd e"
  shows "check_objects_presence_in_consensus_predictions ds True mode (Required_Dict m)
           = Inr (False, [])"
proof (cases "ds = []")
  case True
  then show ?thesis by (simp add: presence_none)
next
  case False
  from assms have "\<exists>e\<in>set m.
      int (length (case map_of (foldl class2detections_append [] ds) (fst e) of
                     None \<Rightarrow> [] | Some l \<Rightarrow> l)) < snd e"
    by (simp only: class2detections_read)
  from check_required_classes_shortfall [OF this] False show ?thesis
    by (simp add: check_objects_presence_in_consensus_predictions_def Let_def)
qed

text \<open>
  C7 (amended). Class-aware presence evaluation with a class-to-count mapping. With no
  merged detection at all, or when a class named in the mapping has fewer merged
  detections than its count (none included), the result is not-present with the empty
  map. Otherwise, with at least one merged detection and positive counts, it is present,
  and the map sends exactly the classes having a merged detection to the aggregate of
  their confidences in the configured mode.
\<close>

theorem class_aware_presence_with_mapping:
  "(consensus_detections = [] \<or>
    (\<exists>e\<in>set m. int (length (of_class (fst e) consensus_detections)) < snd e) \<longrightarrow>
      check_objects_presence_in_consensus_predictions consensus_detections True mode
        (Required_Dict m) = Inr (False, [])) \<and>
   (consensus_detections \<noteq> [] \<and> list_all (\<lambda>e. 0 < snd e) m \<and>
    \<not> (\<exists>e\<in>set m. int (length (of_class (fst e) consensus_detections)) < snd e) \<longrightarrow>
      (\<exists>presence_confidence.
         check_objects_presence_in_consensus_predictions consensus_detections True mode
           (Required_Dict m) = Inr (True, presence_confidence) \<and>
         (\<forall>c. map_of presence_confidence c =
            (if of_class c consensus_detections = [] then None
             else Some (aggregate_of mode
                          (map confidence (of_class c consensus_detections)))))))"
proof (intro conjI impI)
  assume "consensus_detections = [] \<or>
    (\<exists>e\<in>set m. int (length (of_class (fst e) consensus_detections)) < snd e)"
  then show "check_objects_presence_in_consensus_predictions consensus_detections True mode
        (Required_Dict m) = Inr (False, [])"
  proof
    assume "consensus_detections = []"
    then show ?thesis by (simp add: presence_none)
  next
    assume "\<exists>e\<in>set m. int (length (of_class (fst e) consensus_detections)) < snd e"
    then show ?thesis by (rule presence_shortfall)
  qed
next
  assume a: "consensus_detections \<noteq> [] \<and> list_all (\<lambda>e. 0 < snd e) m \<and>
    \<not> (\<exists>e\<in>set m. int (length (of_class (fst e) consensus_detections)) < snd e)"
  then have ne: "consensus_detections \<noteq> []" and pos: "list_all (\<lambda>e. 0 < snd e) m"
    and enough: "\<not> (\<exists>e\<in>set m. int (length (of_class (fst e) consensus_detections)) < snd e)"
    by simp_all
  from class2confidence_of_groups [of mode consensus_detections] enough
  show "\<exists>presence_confidence.
         check_objects_presence_in_consensus_predictions consensus_detections True mode
           (Required_Dict m) = Inr (True, presence_confidence) \<and>
         (\<forall>c. map_of presence_confidence c =
            (if of_class c consensus_detections = [] then None
             else Some (aggregate_of mode
                          (map confidence (of_class c consensus_detections)))))"
    unfolding presence_class_aware_mapping [OF ne pos]
    by auto
qed

lemma merged_facts:
  "class_name merged_cat = ''cat''" "class_name merged_dog = ''dog''"
  "confidence merged_cat = 17 / 20" "confidence merged_dog = 1 / 2"
  by (simp_all add: merged_cat_def merged_dog_def)

lemma presence_example_groups:
  "foldl class2detections_append [] [merged_cat, merged_dog] =
     [(''cat'', [merged_cat]), (''dog'', [merged_dog])]"
  by (simp add: merged_facts)

theorem class_aware_presence_with_mapping_witness:
  "[merged_cat, merged_dog] \<noteq> [] \<and>
   list_all (\<lambda>e. 0 < snd e) [(''cat'', 1 :: int)] \<and>
   check_objects_presence_in_consensus_predictions [merged_cat, merged_dog] True Mode_MAX
     (Required_Dict [(''cat'', 1)]) = Inr (True, [(''cat'', 17 / 20), (''dog'', 1 / 2)]) \<and>
   check_objects_presence_in_consensus_predictions [merged_cat, merged_dog] True Mode_MAX
     (Required_Dict [(''cat'', 2)]) = Inr (False, []) \<and>
   check_objects_presence_in_consensus_predictions [merged_cat, merged_dog] True Mode_MAX
     (Required_Dict [(''bird'', 1)]) = Inr (False, []) \<and>
   check_objects_presence_in_consensus_predictions [] True Mode_MAX
     (Required_Dict [(''cat'', 1)]) = Inr (False, []) \<and>
   check_objects_presence_in_consensus_predictions [] True Mode_MAX
     (Required_Dict []) = Inr (False, [])"
proof -
  have run: "check_objects_presence_in_consensus_predictions [merged_cat, merged_dog] True
     Mode_MAX (Required_Dict [(''cat'', 1)]) = Inr (True, [(''cat'', 17 / 20), (''dog'', 1 / 2)])"
    by (simp add: check_objects_presence_in_consensus_predictions_def presence_example_groups
        defaultdict_read_def aggregate_field_values_def merged_facts)
  from class_aware_presence_with_mapping [of "[merged_cat, merged_dog]" "[(''cat'', 2)]" Mode_MAX]
  have two: "check_objects_presence_in_consensus_predictions [merged_cat, merged_dog] True
     Mode_MAX (Required_Dict [(''cat'', 2)]) = Inr (False, [])"
    by (simp add: of_class_def merged_facts)
  from class_aware_presence_with_mapping [of "[merged_cat, merged_dog]" "[(''bird'', 1)]" Mode_MAX]
  have bird: "check_objects_presence_in_consensus_predictions [merged_cat, merged_dog] True
     Mode_MAX (Required_Dict [(''bird'', 1)]) = Inr (False, [])"
    by (simp add: of_class_def merged_facts)
  from class_aware_presence_with_mapping [of "[]" "[(''cat'', 1)]" Mode_MAX]
  have none_cat: "check_objects_presence_in_consensus_predictions [] True Mode_MAX
     (Required_Dict [(''cat'', 1)]) = Inr (False, [])"
    by simp
  from class_aware_presence_with_mapping [of "[]" "[]" Mode_MAX]
  have none_any: "check_objects_presence_in_consensus_predictions [] True Mode_MAX
     (Required_Dict []) = Inr (False, [])"
    by simp
  from run two bird none_cat none_any show ?thesis by simp
qed

text \<open>
  C7 as stated fails when there is no merged detection and the mapping names no class: no
  named class falls short, and the result is still not-present.
\<close>

theorem empty_mapping_not_present_counterexample:
  "check_objects_presence_in_consensus_predictions [] True Mode_MAX (Required_Dict []) =
     Inr (False, [])"
  by (simp add: check_objects_presence_in_consensus_predictions_def)

section \<open>The result of one batch element\<close>

lemma no_detections_enumerate:
  assumes "does_not_detected_objects_in_any_source predictions"
  shows "enumerate_detections predictions excluded = []"
proof -
  have "\<forall>e\<in>set (enumerate 0 predictions). snd e = []"
  proof
    fix e assume "e \<in> set (enumerate 0 predictions)"
    moreover obtain i ds where "e = (i, ds)" by (cases e)
    ultimately have "snd e \<in> set predictions" by (auto simp: in_set_enumerate_eq)
    with assms show "snd e = []"
      by (simp add: does_not_detected_objects_in_any_source_def list_all_iff)
  qed
  then show ?thesis by (auto simp: enumerate_detections_def)
qed

lemma some_detection_concat:
  "\<not> does_not_detected_objects_in_any_source predictions \<longleftrightarrow> concat predictions \<noteq> []"
  by (auto simp: does_not_detected_objects_in_any_source_def list_all_iff)

lemma parent_ids_length:
  "length (remdups (map parent_id ds)) = card (parent_id ` set ds)"
  by (simp add: length_remdups_card_conv)

lemma parent_ids_single:
  assumes "parent_id ` set ds = {p}"
  shows "remdups (map parent_id ds) = [p]"
proof -
  have len: "length (remdups (map parent_id ds)) = 1"
    using assms by (simp add: parent_ids_length)
  then obtain q where q: "remdups (map parent_id ds) = [q]"
    by (cases "remdups (map parent_id ds)") auto
  have "set (remdups (map parent_id ds)) = {p}" using assms by simp
  with q show ?thesis by simp
qed


lemma parent_id_agreed:
  assumes "parent_id ` set (concat predictions) = {p}"
  shows "get_parent_id_of_predictions_from_different_sources predictions = Inr p"
    and "\<not> does_not_detected_objects_in_any_source predictions"
proof -
  note one = parent_ids_single [OF assms]
  show "get_parent_id_of_predictions_from_different_sources predictions = Inr p"
    by (simp add: get_parent_id_of_predictions_from_different_sources_def one)
  have "concat predictions \<noteq> []"
  proof
    assume "concat predictions = []"
    then have "set (concat predictions) = {}" by (simp only: set_empty)
    then have "parent_id ` set (concat predictions) = {}" by (simp only: image_empty)
    with assms show False by (simp only: insert_not_empty [symmetric])
  qed
  then show "\<not> does_not_detected_objects_in_any_source predictions"
    by (simp add: some_detection_concat)
qed

lemma resolve_no_consensus:
  assumes "\<not> does_not_detected_objects_in_any_source predictions"
    and "consensus_loop to_xyxy uuid4 (filter_predictions predictions classes) thr ca rv ct
           cmode bmode 0 (enumerate_detections (filter_predictions predictions classes) None)
           [] {} = Inr ([], cons')"
  shows "resolve_batch_consensus to_xyxy uuid4 predictions rv ca thr ct classes required pmode
           cmode bmode =
         (case get_parent_id_of_predictions_from_different_sources predictions of
            Inl e \<Rightarrow> Inl e
          | Inr pid \<Rightarrow> Inr (pid, False, [], []))"
  using assms
  by (simp add: resolve_batch_consensus_def Let_def presence_none split: sum.splits)

lemma resolve_filtered_away:
  assumes "\<not> does_not_detected_objects_in_any_source predictions"
    and "does_not_detected_objects_in_any_source (filter_predictions predictions classes)"
  shows "resolve_batch_consensus to_xyxy uuid4 predictions rv ca thr ct classes required pmode
           cmode bmode =
         (case get_parent_id_of_predictions_from_different_sources predictions of
            Inl e \<Rightarrow> Inl e
          | Inr pid \<Rightarrow> Inr (pid, False, [], []))"
proof -
  have "consensus_loop to_xyxy uuid4 (filter_predictions predictions classes) thr ca rv ct
           cmode bmode 0 (enumerate_detections (filter_predictions predictions classes) None)
           [] {} = Inr ([], {})"
    by (simp add: no_detections_enumerate [OF assms(2)])
  from resolve_no_consensus [OF assms(1) this] show ?thesis .
qed


lemma pair_enumerate:
  "enumerate_detections [[cat_a], [cat_b]] None = [(0, cat_a), (Suc 0, cat_b)]"
  "enumerate_detections [[cat_a], [cat_b]] (Some (Suc 0)) = [(0, cat_a)]"
  by (simp_all add: enumerate_detections_def enumerate_eq_zip upt_rec)

lemma pair_example_matching_back:
  "get_detections_from_different_sources_with_max_overlap center_to_xyxy cat_b (Suc 0)
     [[cat_a], [cat_b]] (3 / 10) True {} = Inr [(0, cat_a, 16 / 25)]"
  unfolding get_detections_from_different_sources_with_max_overlap_def pair_enumerate
  by (simp add: calculate_iou_def center_to_xyxy_def
      get_detection_sizes_def py_truediv_def cat_a_def cat_b_def Let_def)

lemma pair_loop_three_votes:
  "consensus_loop center_to_xyxy example_uuid4 [[cat_a], [cat_b]] (3 / 10) True 3 0
     Mode_AVERAGE Mode_AVERAGE 0 (enumerate_detections [[cat_a], [cat_b]] None) [] {} =
   Inr ([], {})"
  unfolding pair_enumerate
  by (simp add: get_consensus_for_single_detection_def pair_example_matching
      pair_example_matching_back)


lemma pair_parent_ids:
  "parent_id ` set (concat [[cat_a], [cat_b]]) = {''img''}"
  "card (parent_id ` set (concat [[cat_a], [stray_b]])) = 2"
  by (simp_all add: cat_a_def cat_b_def stray_b_def)


text \<open>
  C5 (amended). When every source contributes no detection as supplied, the result of the
  batch element is \<open>(''undefined'', False, {}, [])\<close> whatever the configuration. When
  some source contributes detections and the class filter removes them all, the parent
  identifiers are checked first: the result is the mismatch error when they disagree, and
  otherwise the shared parent identifier with \<open>False\<close>, the empty map and no detection.
\<close>

theorem empty_input_result:
  "(does_not_detected_objects_in_any_source predictions \<longrightarrow>
      resolve_batch_consensus to_xyxy uuid4 predictions rv ca thr ct classes required pmode
        cmode bmode = Inr (''undefined'', False, [], [])) \<and>
   (\<not> does_not_detected_objects_in_any_source predictions \<and>
    does_not_detected_objects_in_any_source (filter_predictions predictions classes) \<longrightarrow>
      resolve_batch_consensus to_xyxy uuid4 predictions rv ca thr ct classes required pmode
        cmode bmode =
      (case get_parent_id_of_predictions_from_different_sources predictions of
         Inl e \<Rightarrow> Inl e
       | Inr pid \<Rightarrow> Inr (pid, False, [], [])))"
  using resolve_filtered_away [of predictions classes to_xyxy uuid4 rv ca thr ct required pmode
      cmode bmode]
  by (simp add: resolve_batch_consensus_def)

lemma filtered_away_example:
  "\<not> does_not_detected_objects_in_any_source [[cat_a]]"
  "does_not_detected_objects_in_any_source (filter_predictions [[cat_a]] (Some [''dog'']))"
  "get_parent_id_of_predictions_from_different_sources [[cat_a]] = Inr ''img''"
  by (simp_all add: does_not_detected_objects_in_any_source_def filter_predictions_def
      get_parent_id_of_predictions_from_different_sources_def cat_a_def)

theorem empty_input_result_witness:
  "does_not_detected_objects_in_any_source [[], []] \<and>
   resolve_batch_consensus center_to_xyxy example_uuid4 [[], []] 2 True (3 / 10) 0
     None (Required_Int 1) Mode_MAX Mode_AVERAGE Mode_AVERAGE =
     Inr (''undefined'', False, [], []) \<and>
   \<not> does_not_detected_objects_in_any_source [[cat_a]] \<and>
   does_not_detected_objects_in_any_source (filter_predictions [[cat_a]] (Some [''dog''])) \<and>
   resolve_batch_consensus center_to_xyxy example_uuid4 [[cat_a]] 1 True (3 / 10) 0
     (Some [''dog'']) Required_None Mode_MAX Mode_AVERAGE Mode_AVERAGE =
     Inr (''img'', False, [], [])"
proof -
  have none: "does_not_detected_objects_in_any_source [[], []]"
    by (simp add: does_not_detected_objects_in_any_source_def)
  from empty_input_result [of "[[], []]" center_to_xyxy example_uuid4 2 True "3 / 10" 0
      None "Required_Int 1" Mode_MAX Mode_AVERAGE Mode_AVERAGE] none
  have a: "resolve_batch_consensus center_to_xyxy example_uuid4 [[], []] 2 True (3 / 10) 0
     None (Required_Int 1) Mode_MAX Mode_AVERAGE Mode_AVERAGE =
     Inr (''undefined'', False, [], [])" by simp
  from empty_input_result [of "[[cat_a]]" center_to_xyxy example_uuid4 1 True "3 / 10" 0
      "Some [''dog'']" Required_None Mode_MAX Mode_AVERAGE Mode_AVERAGE] filtered_away_example
  have b: "resolve_batch_consensus center_to_xyxy example_uuid4 [[cat_a]] 1 True (3 / 10) 0
     (Some [''dog'']) Required_None Mode_MAX Mode_AVERAGE Mode_AVERAGE =
     Inr (''img'', False, [], [])" by simp
  from none a b filtered_away_example show ?thesis by simp
qed

text \<open>
  C5 as stated fails when the class filter removes every detection: the parent identifier
  returned is the one of the supplied detections, not \<open>''undefined''\<close>.
\<close>

theorem filtered_away_parent_id_counterexample:
  "does_not_detected_objects_in_any_source (filter_predictions [[cat_a]] (Some [''dog''])) \<and>
   resolve_batch_consensus center_to_xyxy example_uuid4 [[cat_a]] 1 True (3 / 10) 0
     (Some [''dog'']) Required_None Mode_MAX Mode_AVERAGE Mode_AVERAGE \<noteq>
     Inr (''undefined'', False, [], [])"
  using resolve_filtered_away [OF filtered_away_example(1) filtered_away_example(2),
      of center_to_xyxy example_uuid4 1 True "3 / 10" 0 Required_None Mode_MAX
      Mode_AVERAGE Mode_AVERAGE]
  by (simp add: filtered_away_example)







text \<open>
  C10. On an empty list of merged detections the presence evaluation returns not-present
  with the empty map, for every class-awareness flag, aggregation mode and requirement; so
  a batch element with detections whose matching outputs nothing has that result, with
  the parent identifier of its detections.
\<close>

theorem no_consensus_not_present:
  "check_objects_presence_in_consensus_predictions [] ca pmode required = Inr (False, []) \<and>
   (\<not> does_not_detected_objects_in_any_source predictions \<and>
    get_parent_id_of_predictions_from_different_sources predictions = Inr pid \<and>
    consensus_loop to_xyxy uuid4 (filter_predictions predictions classes) thr ca rv ct
      cmode bmode 0 (enumerate_detections (filter_predictions predictions classes) None)
      [] {} = Inr ([], cons') \<longrightarrow>
    resolve_batch_consensus to_xyxy uuid4 predictions rv ca thr ct classes required pmode
      cmode bmode = Inr (pid, False, [], []))"
  using resolve_no_consensus [of predictions to_xyxy uuid4 classes thr ca rv ct cmode bmode
      cons' required pmode]
  by (auto simp: presence_none)

theorem no_consensus_not_present_witness:
  "\<not> does_not_detected_objects_in_any_source [[cat_a], [cat_b]] \<and>
   get_parent_id_of_predictions_from_different_sources [[cat_a], [cat_b]] = Inr ''img'' \<and>
   consensus_loop center_to_xyxy example_uuid4 (filter_predictions [[cat_a], [cat_b]] None)
     (3 / 10) True 3 0 Mode_AVERAGE Mode_AVERAGE 0
     (enumerate_detections (filter_predictions [[cat_a], [cat_b]] None) None) [] {} =
     Inr ([], {}) \<and>
   resolve_batch_consensus center_to_xyxy example_uuid4 [[cat_a], [cat_b]] 3 True (3 / 10) 0
     None (Required_Int 0) Mode_MIN Mode_AVERAGE Mode_AVERAGE = Inr (''img'', False, [], [])"
proof -
  have some: "\<not> does_not_detected_objects_in_any_source [[cat_a], [cat_b]]"
    by (simp add: does_not_detected_objects_in_any_source_def)
  have pid: "get_parent_id_of_predictions_from_different_sources [[cat_a], [cat_b]] = Inr ''img''"
    by (rule parent_id_agreed(1) [OF pair_parent_ids(1)])
  have run: "consensus_loop center_to_xyxy example_uuid4 (filter_predictions [[cat_a], [cat_b]] None)
     (3 / 10) True 3 0 Mode_AVERAGE Mode_AVERAGE 0
     (enumerate_detections (filter_predictions [[cat_a], [cat_b]] None) None) [] {} =
     Inr ([], {})"
    by (simp add: filter_predictions_def pair_loop_three_votes)
  from no_consensus_not_present [of True Mode_MIN "Required_Int 0" "[[cat_a], [cat_b]]" "''img''"
      center_to_xyxy example_uuid4 None "3 / 10" 3 0 Mode_AVERAGE Mode_AVERAGE "{}"]
    some pid run
  have "resolve_batch_consensus center_to_xyxy example_uuid4 [[cat_a], [cat_b]] 3 True (3 / 10) 0
     None (Required_Int 0) Mode_MIN Mode_AVERAGE Mode_AVERAGE = Inr (''img'', False, [], [])"
    by simp
  with some pid run show ?thesis by simp
qed

end
